theory Spec2Isabelle
  imports Complex_Main "HOL-Library.Sublist" "HOL-Library.AList" "HOL-Library.Multiset"
begin

section \<open>The Auto-Fixer agent: detectors, fix applier\<close>

text \<open>
  The program is the JavaScript of the Auto-Fixer agent document: the class
  \<^verbatim>\<open>AutoFixer\<close> and the two specialised fixers \<^verbatim>\<open>ReactFixer\<close> and
  \<^verbatim>\<open>SupabaseFixer\<close>. Strings are \<^typ>\<open>string\<close> (lists of 8-bit characters,
  read as the UTF-16 code units below 256),
  confidences are the rationals their decimal literals denote (the comparisons
  \<^verbatim>\<open>>= 0.9\<close> and \<^verbatim>\<open>< 0.9\<close> on finite doubles agree with the comparisons of
  these rationals), JavaScript exceptions are values, and the instance fields
  of \<^verbatim>\<open>AutoFixer\<close> are threaded through every method as a record.
\<close>

subsection \<open>Regular expressions with JavaScript's backtracking order\<close>

text \<open>
  The two patterns of the source use literal characters, the classes
  \<^verbatim>\<open>\s\<close>, \<^verbatim>\<open>[^)]\<close> and \<^verbatim>\<open>[^>]\<close>, the greedy quantifiers \<^verbatim>\<open>*\<close> and \<^verbatim>\<open>+\<close> on
  one class, capture groups and one negative lookahead. A pattern is the list
  of its nodes in the order of the literal; \<open>Open i\<close> and \<open>Close i\<close> are the
  parentheses of group \<open>i\<close>. A character is a UTF-16 code unit below 256, and
  \<^verbatim>\<open>\s\<close> is JavaScript's white space and line terminators among them: tab,
  line feed, vertical tab, form feed, carriage return, space and the no-break
  space U+00A0. The others (U+1680, U+2000 to U+200A, U+2028, U+2029, U+202F,
  U+205F, U+3000, U+FEFF) lie above 255; a text with a code unit above 255 is
  outside the model.
\<close>

datatype cclass = Only char | WhiteSpace | Except char

fun in_class :: "cclass \<Rightarrow> char \<Rightarrow> bool" where
  "in_class (Only c) x = (x = c)"
| "in_class WhiteSpace x =
     (x \<in> set [CHR 0x09, CHR 0x0A, CHR 0x0B, CHR 0x0C, CHR 0x0D, CHR '' '', CHR 0xA0])"
| "in_class (Except c) x = (x \<noteq> c)"

datatype node =
    One cclass
  | Star cclass
  | Plus cclass
  | Open nat
  | Close nat
  | NotAhead "node list"

definition lit :: "string \<Rightarrow> node list" where
  "lit s = map (\<lambda>c. One (Only c)) s"

type_synonym captures = "(nat \<times> nat \<times> nat) list"

fun close_group :: "nat \<Rightarrow> nat \<Rightarrow> captures \<Rightarrow> captures" where
  "close_group i p [] = []"
| "close_group i p ((j, a, b) # cs) =
     (if j = i then (j, a, p) # cs else (j, a, b) # close_group i p cs)"

text \<open>
  \<open>run ns s p cs\<close> matches the nodes \<open>ns\<close> against the remaining input \<open>s\<close>,
  which starts at index \<open>p\<close> of the subject. It returns the end index and the
  captures of the first successful alternative in backtracking order: a
  quantifier first takes one more character and gives it back only when the
  rest of the pattern fails.
\<close>

function run :: "node list \<Rightarrow> string \<Rightarrow> nat \<Rightarrow> captures \<Rightarrow> (nat \<times> captures) option" where
  "run [] s p cs = Some (p, cs)"
| "run (One k # ns) s p cs =
     (case s of
        [] \<Rightarrow> None
      | x # xs \<Rightarrow> if in_class k x then run ns xs (Suc p) cs else None)"
| "run (Star k # ns) s p cs =
     (case s of
        [] \<Rightarrow> run ns [] p cs
      | x # xs \<Rightarrow>
          if in_class k x
          then (case run (Star k # ns) xs (Suc p) cs of
                  Some r \<Rightarrow> Some r
                | None \<Rightarrow> run ns (x # xs) p cs)
          else run ns (x # xs) p cs)"
| "run (Plus k # ns) s p cs =
     (case s of
        [] \<Rightarrow> None
      | x # xs \<Rightarrow> if in_class k x then run (Star k # ns) xs (Suc p) cs else None)"
| "run (Open i # ns) s p cs = run ns s p ((i, p, p) # cs)"
| "run (Close i # ns) s p cs = run ns s p (close_group i p cs)"
| "run (NotAhead look # ns) s p cs =
     (case run look s p cs of Some r \<Rightarrow> None | None \<Rightarrow> run ns s p cs)"
  by pat_completeness auto
termination
  by (relation "measures [\<lambda>(ns, s, p, cs). length s, \<lambda>(ns, s, p, cs). size_list size ns]") auto

text \<open>The leftmost match at or after index \<open>p\<close>: start, end, captures.\<close>

fun search :: "node list \<Rightarrow> string \<Rightarrow> nat \<Rightarrow> (nat \<times> nat \<times> captures) option" where
  "search ns [] p = (case run ns [] p [] of Some (e, cs) \<Rightarrow> Some (p, e, cs) | None \<Rightarrow> None)"
| "search ns (x # xs) p =
     (case run ns (x # xs) p [] of
        Some (e, cs) \<Rightarrow> Some (p, e, cs)
      | None \<Rightarrow> search ns xs (Suc p))"

fun group_count :: "node list \<Rightarrow> nat" where
  "group_count [] = 0"
| "group_count (Open i # ns) = Suc (group_count ns)"
| "group_count (NotAhead look # ns) = group_count look + group_count ns"
| "group_count (n # ns) = group_count ns"

definition substring :: "string \<Rightarrow> nat \<Rightarrow> nat \<Rightarrow> string" where
  "substring s a b = take (b - a) (drop a s)"

fun capture_of :: "captures \<Rightarrow> nat \<Rightarrow> (nat \<times> nat) option" where
  "capture_of [] k = None"
| "capture_of ((j, a, b) # cs) k = (if j = k then Some (a, b) else capture_of cs k)"

text \<open>
  The match array of \<^verbatim>\<open>exec\<close>: \<open>texts\<close> holds \<^verbatim>\<open>match[0]\<close>, \<^verbatim>\<open>match[1]\<close>, ...,
  \<open>None\<close> for a group that took no part (\<^verbatim>\<open>undefined\<close>); \<open>index\<close> is
  \<^verbatim>\<open>match.index\<close>.
\<close>

record rmatch =
  index :: nat
  texts :: "string option list"

text \<open>A \<^verbatim>\<open>RegExp\<close> object with the \<^verbatim>\<open>g\<close> flag: its pattern and \<^verbatim>\<open>lastIndex\<close>.\<close>

record regexp =
  source :: "node list"
  lastIndex :: nat

definition exec :: "regexp \<Rightarrow> string \<Rightarrow> rmatch option \<times> regexp" where
  "exec re content =
     (if length content < lastIndex re then (None, re\<lparr>lastIndex := 0\<rparr>)
      else
        (case search (source re) (drop (lastIndex re) content) (lastIndex re) of
           None \<Rightarrow> (None, re\<lparr>lastIndex := 0\<rparr>)
         | Some (b, e, cs) \<Rightarrow>
             (Some \<lparr>index = b,
                    texts = Some (substring content b e) #
                      map (\<lambda>k. map_option (\<lambda>(a, z). substring content a z) (capture_of cs k))
                        [1..<Suc (group_count (source re))]\<rparr>,
              re\<lparr>lastIndex := e\<rparr>)))"

lemma run_end_le: "run ns s p cs = Some (e, cs') \<Longrightarrow> e \<le> p + length s"
proof (induction ns s p cs arbitrary: e cs' rule: run.induct)
  case (3 k ns s p cs)
  show ?case
  proof (cases s)
    case Nil
    with 3 show ?thesis by simp
  next
    case (Cons x xs)
    show ?thesis
    proof (cases "in_class k x")
      case True
      show ?thesis
      proof (cases "run (Star k # ns) xs (Suc p) cs")
        case None
        with 3 Cons True show ?thesis by simp
      next
        case (Some r)
        with 3(2)[OF Cons True, of e cs'] 3(5) Cons True show ?thesis by simp
      qed
    next
      case False
      with 3 Cons show ?thesis by simp
    qed
  qed
next
  case (1 s p cs)
  then show ?case by simp
next
  case (2 k ns s p cs)
  then show ?case by (cases s) (auto split: if_splits)
next
  case (4 k ns s p cs)
  then show ?case by (cases s) (auto split: if_splits)
next
  case (5 i ns s p cs)
  then show ?case by simp
next
  case (6 i ns s p cs)
  then show ?case by simp
next
  case (7 look ns s p cs)
  show ?case
  proof (cases "run look s p cs")
    case None
    with 7 show ?thesis by simp
  next
    case (Some r)
    with 7(3) show ?thesis by simp
  qed
qed

lemma search_bounds:
  "search ns s p = Some (b, e, cs) \<Longrightarrow> p \<le> b \<and> b \<le> p + length s \<and> e \<le> p + length s"
proof (induction s arbitrary: p)
  case Nil
  then show ?case by (auto split: option.splits dest: run_end_le)
next
  case (Cons x xs)
  show ?case
  proof (cases "run ns (x # xs) p []")
    case None
    with Cons.prems have "search ns xs (Suc p) = Some (b, e, cs)" by simp
    from Cons.IH[OF this] show ?thesis by simp
  next
    case (Some r)
    with Cons.prems show ?thesis by (cases r) (auto dest: run_end_le)
  qed
qed

lemma exec_lastIndex_le:
  "exec re content = (Some m, re') \<Longrightarrow> lastIndex re' \<le> length content"
  by (auto simp: exec_def split: if_splits option.splits dest!: search_bounds)

text \<open>
  The loop \<^verbatim>\<open>while ((match = pattern.exec(content)) !== null)\<close>, collecting the
  matches. A match that ends where the search began leaves \<^verbatim>\<open>lastIndex\<close> in
  place, and the JavaScript loop then finds it again for ever: that is the
  value \<open>None\<close>.
\<close>

function exec_all :: "regexp \<Rightarrow> string \<Rightarrow> rmatch list option" where
  "exec_all re content =
     (case exec re content of
        (None, re') \<Rightarrow> Some []
      | (Some m, re') \<Rightarrow>
          if lastIndex re' \<le> lastIndex re then None
          else map_option ((#) m) (exec_all re' content))"
  by pat_completeness auto
termination
  apply (relation "measure (\<lambda>(re, content). length content - lastIndex re)")
   apply simp
  subgoal for re content x y m
    using exec_lastIndex_le[of re content m y] by auto
  done

subsection \<open>JavaScript string helpers\<close>

text \<open>\<^verbatim>\<open>String.prototype.indexOf\<close>: the first index at which \<open>pat\<close> occurs.\<close>

fun index_of :: "string \<Rightarrow> string \<Rightarrow> nat option" where
  "index_of pat [] = (if pat = [] then Some 0 else None)"
| "index_of pat (x # xs) =
     (if prefix pat (x # xs) then Some 0 else map_option Suc (index_of pat xs))"

text \<open>
  The replacement text of \<^verbatim>\<open>replace\<close> with a string pattern: \<^verbatim>\<open>$$\<close> is a
  dollar sign, \<^verbatim>\<open>$&\<close> the matched text, \<^verbatim>\<open>$`\<close> the text before the match and
  \<^verbatim>\<open>$'\<close> the text after it.
\<close>

fun expand :: "string \<Rightarrow> string \<Rightarrow> string \<Rightarrow> string \<Rightarrow> string" where
  "expand [] m before after = []"
| "expand [c] m before after = [c]"
| "expand (c # d # r) m before after =
     (if c = CHR ''$'' \<and> d = CHR ''$'' then CHR ''$'' # expand r m before after
      else if c = CHR ''$'' \<and> d = CHR ''&'' then m @ expand r m before after
      else if c = CHR ''$'' \<and> d = CHR 0x60 then before @ expand r m before after
      else if c = CHR ''$'' \<and> d = CHR 0x27 then after @ expand r m before after
      else c # expand (d # r) m before after)"

text \<open>\<^verbatim>\<open>s.replace(pat, rep)\<close> with a string \<open>pat\<close>: the first occurrence only.\<close>

definition js_replace :: "string \<Rightarrow> string \<Rightarrow> string \<Rightarrow> string" where
  "js_replace s pat rep =
     (case index_of pat s of
        None \<Rightarrow> s
      | Some i \<Rightarrow>
          take i s @ expand rep pat (take i s) (drop (i + length pat) s)
            @ drop (i + length pat) s)"

text \<open>A possibly undefined string in a concatenation or a template literal.\<close>

definition js_str :: "string option \<Rightarrow> string" where
  "js_str v = (case v of None \<Rightarrow> ''undefined'' | Some s \<Rightarrow> s)"

definition match_at :: "rmatch \<Rightarrow> nat \<Rightarrow> string option" where
  "match_at m k = (if k < length (texts m) then texts m ! k else None)"

subsection \<open>Findings\<close>

text \<open>
  An issue (the spec's Finding) as the detectors build it. \<open>fix'\<close> is the
  field \<^verbatim>\<open>fix\<close>: the matched text and its proposed replacement.
\<close>

record fix_t =
  original :: string
  fixed :: string

record issue =
  category :: string
  type :: string
  description :: string
  filePath :: string
  line :: nat
  confidence :: rat
  fix' :: fix_t

text \<open>
  Methods that the fixer classes call on \<^verbatim>\<open>this\<close> and the document does not
  define. They are parameters of the model: any functions of their arguments.
  The same methods with a state that they read and write are the record
  \<open>methods\<close> below.
\<close>

record helpers =
  getLineNumber :: "string \<Rightarrow> nat \<Rightarrow> nat"
  findHookIssues :: "string \<Rightarrow> string \<Rightarrow> issue list"
  findStateMutations :: "string \<Rightarrow> string \<Rightarrow> issue list"
  findMissingAuthChecks :: "string \<Rightarrow> string \<Rightarrow> issue list"
  findQueryOptimizations :: "string \<Rightarrow> string \<Rightarrow> issue list"

subsection \<open>ReactFixer\<close>

text \<open>\<^verbatim>\<open>/\.map\s*\(\s*([^)]+)\s*=>\s*<([^>]+)(?![^>]*key=)/g\<close>\<close>

definition mapPattern :: "node list" where
  "mapPattern =
     lit ''.map'' @ [Star WhiteSpace, One (Only CHR ''(''), Star WhiteSpace,
       Open 1, Plus (Except CHR '')''), Close 1, Star WhiteSpace] @
     lit ''=>'' @ [Star WhiteSpace, One (Only CHR ''<''),
       Open 2, Plus (Except CHR ''>''), Close 2,
       NotAhead (Star (Except CHR ''>'') # lit ''key='')]"

definition ReactFixer_canHandle :: "string \<Rightarrow> bool" where
  "ReactFixer_canHandle fileType = (fileType \<in> set [''jsx'', ''tsx''])"

definition generateKeyFix :: "rmatch \<Rightarrow> fix_t" where
  "generateKeyFix m =
     \<lparr>original = js_str (match_at m 0),
      fixed = js_replace (js_str (match_at m 0))
                (''<'' @ js_str (match_at m 2))
                (''<'' @ js_str (match_at m 2) @ '' key={index}'')\<rparr>"

definition findMissingKeys :: "helpers \<Rightarrow> string \<Rightarrow> string \<Rightarrow> issue list option" where
  "findMissingKeys h content path =
     map_option
       (map (\<lambda>m.
          \<lparr>category = ''react'',
           type = ''missing_key'',
           description = ''Missing key prop in list item'',
           filePath = path,
           line = getLineNumber h content (index m),
           confidence = 95 / 100,
           fix' = generateKeyFix m\<rparr>))
       (exec_all \<lparr>source = mapPattern, lastIndex = 0\<rparr> content)"

definition ReactFixer_analyze :: "helpers \<Rightarrow> string \<Rightarrow> string \<Rightarrow> issue list option" where
  "ReactFixer_analyze h content path =
     map_option
       (\<lambda>keys. keys @ findHookIssues h content path @ findStateMutations h content path)
       (findMissingKeys h content path)"

subsection \<open>SupabaseFixer\<close>

text \<open>\<^verbatim>\<open>/const\s+{\s*data\s*}\s*=\s*await\s+supabase/g\<close>\<close>

definition supabasePattern :: "node list" where
  "supabasePattern =
     lit ''const'' @ [Plus WhiteSpace, One (Only CHR ''{''), Star WhiteSpace] @
     lit ''data'' @ [Star WhiteSpace, One (Only CHR ''}''), Star WhiteSpace,
       One (Only CHR ''=''), Star WhiteSpace] @
     lit ''await'' @ [Plus WhiteSpace] @ lit ''supabase''"

definition SupabaseFixer_canHandle :: "string \<Rightarrow> bool" where
  "SupabaseFixer_canHandle fileType = (fileType \<in> set [''js'', ''jsx'', ''ts'', ''tsx''])"

definition generateErrorHandlingFix :: "rmatch \<Rightarrow> fix_t" where
  "generateErrorHandlingFix m =
     \<lparr>original = js_str (match_at m 0),
      fixed = js_replace (js_str (match_at m 0)) ''const { data }'' ''const { data, error }''
                @ [CHR 0x0A] @ ''  if (error) throw error''\<rparr>"

definition findMissingErrorHandling :: "helpers \<Rightarrow> string \<Rightarrow> string \<Rightarrow> issue list option" where
  "findMissingErrorHandling h content path =
     map_option
       (map (\<lambda>m.
          \<lparr>category = ''supabase'',
           type = ''missing_error_handling'',
           description = ''Missing error handling for Supabase call'',
           filePath = path,
           line = getLineNumber h content (index m),
           confidence = 9 / 10,
           fix' = generateErrorHandlingFix m\<rparr>))
       (exec_all \<lparr>source = supabasePattern, lastIndex = 0\<rparr> content)"

definition SupabaseFixer_analyze :: "helpers \<Rightarrow> string \<Rightarrow> string \<Rightarrow> issue list option" where
  "SupabaseFixer_analyze h content path =
     map_option
       (\<lambda>errs. errs @ findMissingAuthChecks h content path
                  @ findQueryOptimizations h content path)
       (findMissingErrorHandling h content path)"

text \<open>
  Modelled from the spec: the \<^verbatim>\<open>fix\<close> method of the fixers is not in the
  document. The spec describes a proposed fix as an original text span and
  its replacement text, applied as a textual replacement that fails when the
  original no longer matches the current file contents.
\<close>

definition apply_replacement :: "fix_t \<Rightarrow> string \<Rightarrow> string option" where
  "apply_replacement f content =
     (case index_of (original f) content of
        None \<Rightarrow> None
      | Some i \<Rightarrow> Some (take i content @ fixed f @ drop (i + length (original f)) content))"

subsection \<open>The detectors with the state their methods can reach\<close>

text \<open>
  The methods that the fixer classes call on \<^verbatim>\<open>this\<close> and the document does not
  define, as JavaScript methods: each may read and write the state \<open>'g\<close> that
  a method of the fixer can reach (fields of the instance, module variables,
  the clock, the file system), and returns its result with the state it
  leaves. What a call answers may therefore depend on the calls made before
  it. The record \<open>helpers\<close> above is the special case of methods that ignore
  the state.
\<close>

record 'g methods =
  getLineNumber_st :: "string \<Rightarrow> nat \<Rightarrow> 'g \<Rightarrow> nat \<times> 'g"
  findHookIssues_st :: "string \<Rightarrow> string \<Rightarrow> 'g \<Rightarrow> issue list \<times> 'g"
  findStateMutations_st :: "string \<Rightarrow> string \<Rightarrow> 'g \<Rightarrow> issue list \<times> 'g"
  findMissingAuthChecks_st :: "string \<Rightarrow> string \<Rightarrow> 'g \<Rightarrow> issue list \<times> 'g"
  findQueryOptimizations_st :: "string \<Rightarrow> string \<Rightarrow> 'g \<Rightarrow> issue list \<times> 'g"

text \<open>
  The loop \<^verbatim>\<open>while ((match = pattern.exec(content)) !== null) issues.push({...})\<close>
  of the two detectors, with the state threaded through it in the order of
  evaluation: \<open>re\<close> is the \<^verbatim>\<open>RegExp\<close> object of the local variable, whose
  \<^verbatim>\<open>lastIndex\<close> each \<^verbatim>\<open>exec\<close> reads and writes, \<open>lineOf\<close> the call of
  \<^verbatim>\<open>this.getLineNumber\<close> inside the object literal, and \<open>build\<close> the object
  literal, given the match and the line. \<open>None\<close> is the loop that never ends.
\<close>

function collect ::
  "(string \<Rightarrow> nat \<Rightarrow> 'g \<Rightarrow> nat \<times> 'g) \<Rightarrow> (rmatch \<Rightarrow> nat \<Rightarrow> issue) \<Rightarrow> string \<Rightarrow> regexp \<Rightarrow> 'g
     \<Rightarrow> (issue list \<times> 'g) option" where
  "collect lineOf build content re g =
     (case exec re content of
        (None, re') \<Rightarrow> Some ([], g)
      | (Some m, re') \<Rightarrow>
          if lastIndex re' \<le> lastIndex re then None
          else (case lineOf content (index m) g of
                  (n, g1) \<Rightarrow>
                    (case collect lineOf build content re' g1 of
                       None \<Rightarrow> None
                     | Some (rest, g2) \<Rightarrow> Some (build m n # rest, g2))))"
  by pat_completeness auto
termination
  apply (relation "measure (\<lambda>(lineOf, build, content, re, g). length content - lastIndex re)")
   apply simp
  subgoal for lineOf build content re g x y m
    using exec_lastIndex_le[of re content m y] by auto
  done

text \<open>
  \<^verbatim>\<open>findMissingKeys\<close> and \<^verbatim>\<open>analyze\<close> of \<^verbatim>\<open>ReactFixer\<close>. The pattern is a
  regular expression literal in the body of the method
  (\<^verbatim>\<open>const mapPattern = /.../g\<close>): every call evaluates the literal, which makes
  a new \<^verbatim>\<open>RegExp\<close> object with \<^verbatim>\<open>lastIndex\<close> 0, and the object is not reachable
  after the call returns. The three methods are called in the order of the
  three \<^verbatim>\<open>issues.push(...)\<close> statements.
\<close>

definition findMissingKeys_st ::
  "'g methods \<Rightarrow> string \<Rightarrow> string \<Rightarrow> 'g \<Rightarrow> (issue list \<times> 'g) option" where
  "findMissingKeys_st M content path g =
     collect (getLineNumber_st M)
       (\<lambda>m n.
          \<lparr>category = ''react'',
           type = ''missing_key'',
           description = ''Missing key prop in list item'',
           filePath = path,
           line = n,
           confidence = 95 / 100,
           fix' = generateKeyFix m\<rparr>)
       content \<lparr>source = mapPattern, lastIndex = 0\<rparr> g"

definition ReactFixer_analyze_st ::
  "'g methods \<Rightarrow> string \<Rightarrow> string \<Rightarrow> 'g \<Rightarrow> (issue list \<times> 'g) option" where
  "ReactFixer_analyze_st M content path g =
     (case findMissingKeys_st M content path g of
        None \<Rightarrow> None
      | Some (keys, g1) \<Rightarrow>
          (case findHookIssues_st M content path g1 of
             (hooks, g2) \<Rightarrow>
               (case findStateMutations_st M content path g2 of
                  (mutations, g3) \<Rightarrow> Some (keys @ hooks @ mutations, g3))))"



subsection \<open>The world outside the AutoFixer\<close>

text \<open>
  A thrown JavaScript value. \<open>TypeError\<close> is what the engine throws when the
  code reads a property of \<^verbatim>\<open>undefined\<close>; \<open>Thrown\<close> is an error thrown by a
  collaborator. \<open>message\<close> is \<^verbatim>\<open>error.message\<close>.
\<close>

datatype exn = TypeError string | Thrown string

fun message :: "exn \<Rightarrow> string" where
  "message (TypeError m) = m"
| "message (Thrown m) = m"

record fix_result =
  success :: bool

datatype fixer = ESLintFixer | ReactFixer | SupabaseFixer | SecurityFixer | PerformanceFixer

text \<open>
  What the document calls and does not define: the file system
  (\<^verbatim>\<open>fs.readFile\<close>), the clock (\<^verbatim>\<open>new Date().toISOString()\<close>), the user
  (\<^verbatim>\<open>promptUser\<close>), the methods \<^verbatim>\<open>getProjectFiles\<close>, \<^verbatim>\<open>detectFileType\<close> and
  \<^verbatim>\<open>createBackup\<close> of \<^verbatim>\<open>AutoFixer\<close>, the method \<^verbatim>\<open>fix\<close> of every fixer, and
  the classes \<^verbatim>\<open>ESLintFixer\<close>, \<^verbatim>\<open>SecurityFixer\<close> and \<^verbatim>\<open>PerformanceFixer\<close>
  (\<open>fixer_canHandle\<close> and \<open>fixer_analyze\<close> stand for their methods). Each is
  a parameter. \<open>'w\<close> is the state of the outside world; an operation that
  may throw returns the exception or its result, and the world it leaves.
\<close>

record 'w env =
  readFile :: "string \<Rightarrow> 'w \<Rightarrow> (exn + string) \<times> 'w"
  getProjectFiles :: "string \<Rightarrow> 'w \<Rightarrow> (exn + string list) \<times> 'w"
  detectFileType :: "string \<Rightarrow> string"
  createBackup :: "string \<Rightarrow> 'w \<Rightarrow> (exn + unit) \<times> 'w"
  promptUser :: "string \<Rightarrow> 'w \<Rightarrow> bool \<times> 'w"
  now :: "'w \<Rightarrow> string"
  fixer_fix :: "fixer \<Rightarrow> issue \<Rightarrow> 'w \<Rightarrow> (exn + fix_result) \<times> 'w"
  fixer_canHandle :: "fixer \<Rightarrow> string \<Rightarrow> bool"
  fixer_analyze :: "fixer \<Rightarrow> string \<Rightarrow> string \<Rightarrow> issue list"
  helper_methods :: helpers

subsection \<open>The AutoFixer instance\<close>

record config =
  confidence_threshold :: rat
  auto_apply :: bool
  backup_before_fix :: bool

text \<open>An entry of \<^verbatim>\<open>this.appliedFixes\<close>: \<^verbatim>\<open>{ issue, result, timestamp }\<close>.\<close>

record applied =
  issue :: issue
  result :: fix_result
  timestamp :: string

text \<open>
  What the code prints, one constructor for each \<^verbatim>\<open>console.log\<close> or
  \<^verbatim>\<open>console.error\<close> of the source with the values its template inserts.
\<close>

datatype console_line =
    Analyzing
  | FoundIssues nat
  | ApplyingFixes
  | Fixed string string
  | FailedToFix string
  | ErrorApplyingFix string
  | SuggestedHeader
  | ShowDescription string
  | ShowFile string
  | ShowConfidence rat
  | AppliedCount nat

text \<open>
  The trace of a run: the console lines, each call of \<^verbatim>\<open>applyFix\<close> with its
  argument, and each answer of \<^verbatim>\<open>promptUser\<close> with the issue it was asked
  about.
\<close>

datatype event =
    Console console_line
  | Enter_applyFix issue
  | Answered issue bool

text \<open>
  The fields of the instance (\<^verbatim>\<open>new AutoFixer()\<close> without an argument
  leaves \<^verbatim>\<open>this.config\<close> undefined; \<^verbatim>\<open>this.fixers\<close> is a \<^verbatim>\<open>Map\<close>, kept in
  insertion order), together with the world and the trace.
\<close>

record 'w state =
  config :: "config option"
  fixers :: "(string \<times> fixer) list"
  issues :: "issue list"
  appliedFixes :: "applied list"
  world :: 'w
  trace :: "event list"

definition emit :: "event \<Rightarrow> 'w state \<Rightarrow> 'w state" where
  "emit e s = s\<lparr>trace := trace s @ [e]\<rparr>"

definition initializeFixers :: "'w state \<Rightarrow> 'w state" where
  "initializeFixers s =
     s\<lparr>fixers :=
         AList.update ''performance'' PerformanceFixer
           (AList.update ''security'' SecurityFixer
             (AList.update ''supabase'' SupabaseFixer
               (AList.update ''react'' ReactFixer
                 (AList.update ''eslint'' ESLintFixer (fixers s)))))\<rparr>"

definition new_AutoFixer :: "config option \<Rightarrow> 'w \<Rightarrow> 'w state" where
  "new_AutoFixer cfg w =
     initializeFixers
       \<lparr>config = cfg, fixers = [], issues = [], appliedFixes = [], world = w, trace = []\<rparr>"

subsection \<open>Analysis\<close>

definition canHandle :: "'w env \<Rightarrow> fixer \<Rightarrow> string \<Rightarrow> bool" where
  "canHandle env f fileType =
     (case f of
        ReactFixer \<Rightarrow> ReactFixer_canHandle fileType
      | SupabaseFixer \<Rightarrow> SupabaseFixer_canHandle fileType
      | _ \<Rightarrow> fixer_canHandle env f fileType)"

definition analyze :: "'w env \<Rightarrow> fixer \<Rightarrow> string \<Rightarrow> string \<Rightarrow> issue list option" where
  "analyze env f content path =
     (case f of
        ReactFixer \<Rightarrow> ReactFixer_analyze (helper_methods env) content path
      | SupabaseFixer \<Rightarrow> SupabaseFixer_analyze (helper_methods env) content path
      | _ \<Rightarrow> Some (fixer_analyze env f content path))"

text \<open>
  The result of an \<^verbatim>\<open>async\<close> method: it returns, it rejects with an
  exception (the instance keeps what was done before), or it never settles.
\<close>

datatype 'a outcome = Returns 'a | Throws exn 'a | Diverges

text \<open>
  The loop \<^verbatim>\<open>for (const [name, fixer] of this.fixers)\<close> of \<^verbatim>\<open>analyzeFile\<close>; the
  last argument is \<^verbatim>\<open>this.issues\<close>.
\<close>

fun analyze_with ::
  "'w env \<Rightarrow> (string \<times> fixer) list \<Rightarrow> string \<Rightarrow> string \<Rightarrow> string \<Rightarrow> issue list
     \<Rightarrow> issue list option" where
  "analyze_with env [] fileType content path acc = Some acc"
| "analyze_with env ((name, f) # rest) fileType content path acc =
     (if canHandle env f fileType
      then (case analyze env f content path of
              None \<Rightarrow> None
            | Some fileIssues \<Rightarrow>
                analyze_with env rest fileType content path (acc @ fileIssues))
      else analyze_with env rest fileType content path acc)"

definition analyzeFile :: "'w env \<Rightarrow> string \<Rightarrow> 'w state \<Rightarrow> 'w state outcome" where
  "analyzeFile env path s =
     (case readFile env path (world s) of
        (Inl e, w) \<Rightarrow> Throws e (s\<lparr>world := w\<rparr>)
      | (Inr content, w) \<Rightarrow>
          (case analyze_with env (fixers s) (detectFileType env path) content path (issues s) of
             None \<Rightarrow> Diverges
           | Some found \<Rightarrow> Returns (s\<lparr>issues := found, world := w\<rparr>)))"

text \<open>The loop \<^verbatim>\<open>for (const file of files)\<close> of \<^verbatim>\<open>analyzeProject\<close>.\<close>

fun analyze_files :: "'w env \<Rightarrow> string list \<Rightarrow> 'w state \<Rightarrow> 'w state outcome" where
  "analyze_files env [] s = Returns s"
| "analyze_files env (file # files) s =
     (case analyzeFile env file s of
        Returns s' \<Rightarrow> analyze_files env files s'
      | Throws e s' \<Rightarrow> Throws e s'
      | Diverges \<Rightarrow> Diverges)"

definition analyzeProject :: "'w env \<Rightarrow> string \<Rightarrow> 'w state \<Rightarrow> 'w state outcome" where
  "analyzeProject env projectPath s =
     (case getProjectFiles env projectPath (world (emit (Console Analyzing) s)) of
        (Inl e, w) \<Rightarrow> Throws e (emit (Console Analyzing) s\<lparr>world := w\<rparr>)
      | (Inr files, w) \<Rightarrow>
          (case analyze_files env files (emit (Console Analyzing) s\<lparr>world := w\<rparr>) of
             Returns s' \<Rightarrow> Returns (emit (Console (FoundIssues (length (issues s')))) s')
           | Throws e s' \<Rightarrow> Throws e s'
           | Diverges \<Rightarrow> Diverges))"

subsection \<open>Applying fixes\<close>

text \<open>
  The body of the \<^verbatim>\<open>try\<close> block of \<^verbatim>\<open>applyFix\<close> up to the result of
  \<^verbatim>\<open>fixer.fix(issue)\<close>: reading \<^verbatim>\<open>this.config.backup_before_fix\<close> throws when
  there is no config, \<^verbatim>\<open>createBackup\<close> may throw, and calling \<^verbatim>\<open>fix\<close> on the
  \<^verbatim>\<open>undefined\<close> that \<^verbatim>\<open>this.fixers.get\<close> returns for an unregistered
  category throws.
\<close>

definition attempt :: "'w env \<Rightarrow> issue \<Rightarrow> 'w state \<Rightarrow> (exn + fix_result) \<times> 'w" where
  "attempt env i s =
     (case config s of
        None \<Rightarrow>
          (Inl (TypeError ''Cannot read properties of undefined (reading backup_before_fix)''),
           world s)
      | Some c \<Rightarrow>
          (case (if backup_before_fix c then createBackup env (filePath i) (world s)
                 else (Inr (), world s)) of
             (Inl e, w) \<Rightarrow> (Inl e, w)
           | (Inr u, w) \<Rightarrow>
               (case map_of (fixers s) (category i) of
                  None \<Rightarrow>
                    (Inl (TypeError ''Cannot read properties of undefined (reading fix)''), w)
                | Some f \<Rightarrow> fixer_fix env f i w)))"

definition applyFix :: "'w env \<Rightarrow> issue \<Rightarrow> 'w state \<Rightarrow> 'w state" where
  "applyFix env i s =
     (case attempt env i s of
        (Inl e, w) \<Rightarrow>
          emit (Console (ErrorApplyingFix (message e)))
            (emit (Enter_applyFix i) s\<lparr>world := w\<rparr>)
      | (Inr r, w) \<Rightarrow>
          if success r
          then emit (Console (Fixed (description i) (filePath i)))
                 (emit (Enter_applyFix i) s
                    \<lparr>appliedFixes :=
                       appliedFixes s @ [\<lparr>issue = i, result = r, timestamp = now env w\<rparr>],
                     world := w\<rparr>)
          else emit (Console (FailedToFix (description i)))
                 (emit (Enter_applyFix i) s\<lparr>world := w\<rparr>))"

text \<open>The three lines that \<^verbatim>\<open>presentSuggestedFixes\<close> prints for an issue.\<close>

definition announce :: "issue \<Rightarrow> 'w state \<Rightarrow> 'w state" where
  "announce i s =
     emit (Console (ShowConfidence (confidence i)))
       (emit (Console (ShowFile (filePath i)))
         (emit (Console (ShowDescription (description i))) s))"

text \<open>The loop \<^verbatim>\<open>for (const issue of issues)\<close> of \<^verbatim>\<open>presentSuggestedFixes\<close>.\<close>

fun confirm_each :: "'w env \<Rightarrow> issue list \<Rightarrow> 'w state \<Rightarrow> 'w state" where
  "confirm_each env [] s = s"
| "confirm_each env (i # rest) s =
     (case promptUser env ''Apply this fix? (y/n): '' (world (announce i s)) of
        (shouldApply, w) \<Rightarrow>
          if shouldApply
          then confirm_each env rest
                 (applyFix env i (emit (Answered i shouldApply) (announce i s\<lparr>world := w\<rparr>)))
          else confirm_each env rest
                 (emit (Answered i shouldApply) (announce i s\<lparr>world := w\<rparr>)))"

definition presentSuggestedFixes :: "'w env \<Rightarrow> issue list \<Rightarrow> 'w state \<Rightarrow> 'w state" where
  "presentSuggestedFixes env suggested s =
     confirm_each env suggested (emit (Console SuggestedHeader) s)"

text \<open>\<^verbatim>\<open>applyFixes\<close>; the value it returns is \<open>appliedFixes\<close> of the state.\<close>

definition applyFixes :: "'w env \<Rightarrow> 'w state \<Rightarrow> 'w state" where
  "applyFixes env s =
     (let safeIssues = filter (\<lambda>i. 9 / 10 \<le> confidence i) (issues s);
          suggestedIssues = filter (\<lambda>i. confidence i < 9 / 10) (issues s);
          s1 = foldl (\<lambda>s' i. applyFix env i s') (emit (Console ApplyingFixes) s) safeIssues;
          s2 = (if 0 < length suggestedIssues
                then presentSuggestedFixes env suggestedIssues s1 else s1)
      in emit (Console (AppliedCount (length (appliedFixes s2)))) s2)"

text \<open>The calls of \<^verbatim>\<open>applyFix\<close> in a trace, and the answers to the prompts.\<close>

fun attempts :: "event list \<Rightarrow> issue list" where
  "attempts [] = []"
| "attempts (Enter_applyFix i # es) = i # attempts es"
| "attempts (e # es) = attempts es"

fun answers :: "event list \<Rightarrow> (issue \<times> bool) list" where
  "answers [] = []"
| "answers (Answered i b # es) = (i, b) # answers es"
| "answers (e # es) = answers es"

fun failures :: "event list \<Rightarrow> console_line list" where
  "failures [] = []"
| "failures (Console (FailedToFix d) # es) = FailedToFix d # failures es"
| "failures (Console (ErrorApplyingFix m) # es) = ErrorApplyingFix m # failures es"
| "failures (e # es) = failures es"

text \<open>The least number of characters a match of the pattern takes.\<close>

fun min_length :: "node list \<Rightarrow> nat" where
  "min_length [] = 0"
| "min_length (One k # ns) = Suc (min_length ns)"
| "min_length (Plus k # ns) = Suc (min_length ns)"
| "min_length (n # ns) = min_length ns"

text \<open>The instance as an \<^verbatim>\<open>async\<close> method leaves it, when it settles.\<close>

fun final :: "'a outcome \<Rightarrow> 'a option" where
  "final (Returns s) = Some s"
| "final (Throws e s) = Some s"
| "final Diverges = None"

text \<open>
  Bookkeeping between two states of a run: the applied fixes only grow, by
  successful fixes of the given issues, the failure lines only grow, and
  every call of \<^verbatim>\<open>applyFix\<close> in between added either one applied fix or one
  failure line.
\<close>

definition books :: "issue set \<Rightarrow> 'w state \<Rightarrow> 'w state \<Rightarrow> bool" where
  "books A s s' =
     (\<exists>new lines.
        appliedFixes s' = appliedFixes s @ new \<and>
        failures (trace s') = failures (trace s) @ lines \<and>
        list_all (\<lambda>a. success (result a) \<and> issue a \<in> A) new \<and>
        length (attempts (trace s')) = length (attempts (trace s)) + length new + length lines)"

subsection \<open>A concrete outside world\<close>

text \<open>
  An instance of the parameters, used to run the model on concrete inputs. The
  world is the file system, a list of paths with their contents. Modelled from
  the spec: a fixer's \<open>fix\<close> replaces the original span of the issue's fix in
  the file named by the issue and reports failure when the file no longer
  contains it; the other methods the document leaves out return nothing.
\<close>

definition example_helpers :: helpers where
  "example_helpers =
     \<lparr>getLineNumber = (\<lambda>content i. length (filter (\<lambda>c. c = CHR 0x0A) (take i content)) + 1),
      findHookIssues = (\<lambda>content path. []),
      findStateMutations = (\<lambda>content path. []),
      findMissingAuthChecks = (\<lambda>content path. []),
      findQueryOptimizations = (\<lambda>content path. [])\<rparr>"

definition example_fix ::
  "issue \<Rightarrow> (string \<times> string) list \<Rightarrow> (exn + fix_result) \<times> (string \<times> string) list" where
  "example_fix i files =
     (case map_of files (filePath i) of
        None \<Rightarrow> (Inl (Thrown ''ENOENT: no such file or directory''), files)
      | Some content \<Rightarrow>
          (case apply_replacement (fix' i) content of
             None \<Rightarrow> (Inr \<lparr>success = False\<rparr>, files)
           | Some content' \<Rightarrow>
               (Inr \<lparr>success = True\<rparr>, AList.update (filePath i) content' files)))"

definition example_env :: "bool \<Rightarrow> (string \<times> string) list env" where
  "example_env answer =
     \<lparr>readFile = (\<lambda>path files.
        (case map_of files path of
           None \<Rightarrow> Inl (Thrown ''ENOENT: no such file or directory'')
         | Some content \<Rightarrow> Inr content, files)),
      getProjectFiles = (\<lambda>path files. (Inr (map fst files), files)),
      detectFileType = (\<lambda>path. ''jsx''),
      createBackup = (\<lambda>path files. (Inr (), files)),
      promptUser = (\<lambda>question files. (answer, files)),
      now = (\<lambda>files. ''2024-01-15T10:30:00.000Z''),
      fixer_fix = (\<lambda>f. example_fix),
      fixer_canHandle = (\<lambda>f fileType. False),
      fixer_analyze = (\<lambda>f content path. []),
      helper_methods = example_helpers\<rparr>"

definition example_config :: "rat \<Rightarrow> config" where
  "example_config t = \<lparr>confidence_threshold = t, auto_apply = True, backup_before_fix = True\<rparr>"

definition at_threshold :: issue where
  "at_threshold =
     \<lparr>category = ''supabase'', type = ''missing_error_handling'',
      description = ''Missing error handling for Supabase call'',
      filePath = ''src/api.js'', line = 1, confidence = 9 / 10,
      fix' = \<lparr>original = ''const { data } = await supabase'',
                fixed = ''const { data, error } = await supabase\<newline>  if (error) throw error''\<rparr>\<rparr>"

definition below_threshold :: issue where
  "below_threshold =
     \<lparr>category = ''performance'', type = ''add_react_memo'',
      description = ''Wrap component in React.memo'',
      filePath = ''src/List.jsx'', line = 1, confidence = 85 / 100,
      fix' = \<lparr>original = ''export default List'',
                fixed = ''export default React.memo(List)''\<rparr>\<rparr>"

definition missing_key :: issue where
  "missing_key =
     \<lparr>category = ''react'', type = ''missing_key'',
      description = ''Missing key prop in list item'',
      filePath = ''src/List.jsx'', line = 1, confidence = 95 / 100,
      fix' = \<lparr>original = ''.map(item => <div'',
                fixed = ''.map(item => <div key={index}''\<rparr>\<rparr>"

text \<open>
  Two files: \<^verbatim>\<open>src/api.js\<close> was edited after the analysis and no longer holds
  the text that \<open>at_threshold\<close> wants to replace; \<^verbatim>\<open>src/List.jsx\<close> still holds
  the list rendering.
\<close>

definition example_files :: "(string \<times> string) list" where
  "example_files =
     [(''src/api.js'', ''const res = await supabase.from('users').select('*')''),
      (''src/List.jsx'', ''items.map(item => <div>{item.name}</div>)'')]"

text \<open>
  Methods with a state, the number of calls made so far. \<open>example_methods\<close>
  count their calls and answer as \<open>example_helpers\<close> does; \<open>drifting_methods\<close>
  differ in \<^verbatim>\<open>getLineNumber\<close>, which answers with the count.
\<close>

definition example_methods :: "nat methods" where
  "example_methods =
     \<lparr>getLineNumber_st = (\<lambda>content i calls.
        (getLineNumber example_helpers content i, Suc calls)),
      findHookIssues_st = (\<lambda>content path calls. ([], Suc calls)),
      findStateMutations_st = (\<lambda>content path calls. ([], Suc calls)),
      findMissingAuthChecks_st = (\<lambda>content path calls. ([], Suc calls)),
      findQueryOptimizations_st = (\<lambda>content path calls. ([], Suc calls))\<rparr>"

definition drifting_methods :: "nat methods" where
  "drifting_methods =
     example_methods\<lparr>getLineNumber_st := (\<lambda>content i calls. (calls, Suc calls))\<rparr>"

section \<open>Auxiliary facts\<close>

lemma attempts_append: "attempts (xs @ ys) = attempts xs @ attempts ys"
  by (induction xs rule: attempts.induct) simp_all

lemma answers_append: "answers (xs @ ys) = answers xs @ answers ys"
  by (induction xs rule: answers.induct) simp_all

lemma failures_append: "failures (xs @ ys) = failures xs @ failures ys"
  by (induction xs rule: failures.induct) simp_all

lemma emit_fields:
  "trace (emit e s) = trace s @ [e]" "issues (emit e s) = issues s"
  "appliedFixes (emit e s) = appliedFixes s" "world (emit e s) = world s"
  "config (emit e s) = config s" "fixers (emit e s) = fixers s"
  by (simp_all add: emit_def)

lemma applyFix_issues: "issues (applyFix env i s) = issues s"
  by (simp add: applyFix_def emit_fields split: prod.splits sum.splits)

lemma applyFix_attempts: "attempts (trace (applyFix env i s)) = attempts (trace s) @ [i]"
  by (simp add: applyFix_def emit_fields attempts_append split: prod.splits sum.splits)

lemma applyFix_answers: "answers (trace (applyFix env i s)) = answers (trace s)"
  by (simp add: applyFix_def emit_fields answers_append split: prod.splits sum.splits)

text \<open>One call of applyFix: a successful fix is recorded, any other outcome is one console line.\<close>

lemma applyFix_outcome:
  "(\<exists>r. success r \<and>
        appliedFixes (applyFix env i s) =
          appliedFixes s @ [\<lparr>issue = i, result = r, timestamp = now env (world (applyFix env i s))\<rparr>] \<and>
        failures (trace (applyFix env i s)) = failures (trace s))
   \<or> (\<exists>l. appliedFixes (applyFix env i s) = appliedFixes s \<and>
        failures (trace (applyFix env i s)) = failures (trace s) @ [l])"
  by (simp add: applyFix_def emit_fields failures_append split: prod.splits sum.splits)


lemma announce_fields:
  "attempts (trace (announce i s)) = attempts (trace s)"
  "answers (trace (announce i s)) = answers (trace s)"
  "failures (trace (announce i s)) = failures (trace s)"
  "issues (announce i s) = issues s"
  "appliedFixes (announce i s) = appliedFixes s"
  by (simp_all add: announce_def emit_fields attempts_append answers_append failures_append)

lemma foldl_applyFix_issues: "issues (foldl (\<lambda>s' i. applyFix env i s') s xs) = issues s"
  by (induction xs arbitrary: s) (simp_all add: applyFix_issues)

lemma foldl_applyFix_attempts:
  "attempts (trace (foldl (\<lambda>s' i. applyFix env i s') s xs)) = attempts (trace s) @ xs"
  by (induction xs arbitrary: s) (simp_all add: applyFix_attempts)

lemma foldl_applyFix_answers:
  "answers (trace (foldl (\<lambda>s' i. applyFix env i s') s xs)) = answers (trace s)"
  by (induction xs arbitrary: s) (simp_all add: applyFix_answers)

lemma confirm_each_issues: "issues (confirm_each env xs s) = issues s"
  by (induction xs arbitrary: s)
     (simp_all add: applyFix_issues announce_fields emit_fields split: prod.splits)

lemma confirm_each_trace:
  "\<exists>bs. length bs = length xs \<and>
     answers (trace (confirm_each env xs s)) = answers (trace s) @ zip xs bs \<and>
     attempts (trace (confirm_each env xs s)) =
       attempts (trace s) @ map fst (filter snd (zip xs bs))"
proof (induction xs arbitrary: s)
  case Nil
  show ?case by simp
next
  case (Cons i rest)
  obtain b w where ask: "promptUser env ''Apply this fix? (y/n): '' (world (announce i s)) = (b, w)"
    by (cases "promptUser env ''Apply this fix? (y/n): '' (world (announce i s))")
  define s1 where "s1 = emit (Answered i b) (announce i s\<lparr>world := w\<rparr>)"
  define s2 where "s2 = (if b then applyFix env i s1 else s1)"
  have step: "confirm_each env (i # rest) s = confirm_each env rest s2"
    using ask by (simp add: s1_def s2_def)
  have a1: "answers (trace s1) = answers (trace s) @ [(i, b)]"
    and t1: "attempts (trace s1) = attempts (trace s)"
    by (simp_all add: s1_def emit_def announce_def answers_append attempts_append)
  have a2: "answers (trace s2) = answers (trace s) @ [(i, b)]"
    using a1 by (simp add: s2_def applyFix_answers)
  have t2: "attempts (trace s2) = attempts (trace s) @ (if b then [i] else [])"
    using t1 by (simp add: s2_def applyFix_attempts)
  from Cons.IH[of s2] obtain bs where bs: "length bs = length rest"
    "answers (trace (confirm_each env rest s2)) = answers (trace s2) @ zip rest bs"
    "attempts (trace (confirm_each env rest s2)) =
       attempts (trace s2) @ map fst (filter snd (zip rest bs))"
    by blast
  have "length (b # bs) = length (i # rest)" using bs(1) by simp
  moreover have "answers (trace (confirm_each env (i # rest) s)) =
      answers (trace s) @ zip (i # rest) (b # bs)"
    using step bs(2) a2 by simp
  moreover have "attempts (trace (confirm_each env (i # rest) s)) =
      attempts (trace s) @ map fst (filter snd (zip (i # rest) (b # bs)))"
    using step bs(3) t2 by simp
  ultimately show ?case by blast
qed

lemma applyFixes_issues: "issues (applyFixes env s) = issues s"
  by (simp add: applyFixes_def Let_def emit_fields presentSuggestedFixes_def
        confirm_each_issues foldl_applyFix_issues)

lemma applyFixes_trace:
  "\<exists>bs. length bs = length (filter (\<lambda>i. confidence i < 9 / 10) (issues s)) \<and>
     answers (trace (applyFixes env s)) =
       answers (trace s) @ zip (filter (\<lambda>i. confidence i < 9 / 10) (issues s)) bs \<and>
     attempts (trace (applyFixes env s)) =
       attempts (trace s) @ filter (\<lambda>i. 9 / 10 \<le> confidence i) (issues s)
         @ map fst (filter snd (zip (filter (\<lambda>i. confidence i < 9 / 10) (issues s)) bs))"
proof -
  let ?safe = "filter (\<lambda>i. 9 / 10 \<le> confidence i) (issues s)"
  let ?sugg = "filter (\<lambda>i. confidence i < 9 / 10) (issues s)"
  define s1 where "s1 = foldl (\<lambda>s' i. applyFix env i s') (emit (Console ApplyingFixes) s) ?safe"
  have t1: "attempts (trace s1) = attempts (trace s) @ ?safe"
    and a1: "answers (trace s1) = answers (trace s)"
    by (simp_all add: s1_def foldl_applyFix_attempts foldl_applyFix_answers emit_fields
          attempts_append answers_append)
  show ?thesis
  proof (cases "?sugg = []")
    case True
    then have "applyFixes env s = emit (Console (AppliedCount (length (appliedFixes s1)))) s1"
      by (simp add: applyFixes_def Let_def s1_def)
    with True t1 a1 show ?thesis
      by (simp add: emit_fields attempts_append answers_append)
  next
    case False
    define s0 where "s0 = emit (Console SuggestedHeader) s1"
    define s2 where "s2 = confirm_each env ?sugg s0"
    from False have eq: "applyFixes env s = emit (Console (AppliedCount (length (appliedFixes s2)))) s2"
      by (simp add: applyFixes_def Let_def s1_def s2_def s0_def presentSuggestedFixes_def)
    have t0: "attempts (trace s0) = attempts (trace s) @ ?safe"
      and a0: "answers (trace s0) = answers (trace s)"
      using t1 a1 by (simp_all add: s0_def emit_fields attempts_append answers_append)
    from confirm_each_trace[of ?sugg env s0] obtain bs where bs:
      "length bs = length ?sugg"
      "answers (trace s2) = answers (trace s0) @ zip ?sugg bs"
      "attempts (trace s2) = attempts (trace s0) @ map fst (filter snd (zip ?sugg bs))"
      unfolding s2_def by blast
    have "answers (trace (applyFixes env s)) = answers (trace s) @ zip ?sugg bs"
      using eq bs(2) a0 by (simp add: emit_fields answers_append)
    moreover have "attempts (trace (applyFixes env s)) =
        attempts (trace s) @ ?safe @ map fst (filter snd (zip ?sugg bs))"
      using eq bs(3) t0 by (simp add: emit_fields attempts_append)
    ultimately show ?thesis using bs(1) by blast
  qed
qed

lemma books_refl: "books A s s"
  by (simp add: books_def)

lemma books_trans:
  assumes "books A s s1" and "books A s1 s2"
  shows "books A s s2"
proof -
  from assms(1) obtain n1 l1 where 1:
    "appliedFixes s1 = appliedFixes s @ n1" "failures (trace s1) = failures (trace s) @ l1"
    "list_all (\<lambda>a. success (result a) \<and> issue a \<in> A) n1"
    "length (attempts (trace s1)) = length (attempts (trace s)) + length n1 + length l1"
    unfolding books_def by blast
  from assms(2) obtain n2 l2 where 2:
    "appliedFixes s2 = appliedFixes s1 @ n2" "failures (trace s2) = failures (trace s1) @ l2"
    "list_all (\<lambda>a. success (result a) \<and> issue a \<in> A) n2"
    "length (attempts (trace s2)) = length (attempts (trace s1)) + length n2 + length l2"
    unfolding books_def by blast
  have "appliedFixes s2 = appliedFixes s @ (n1 @ n2)"
    "failures (trace s2) = failures (trace s) @ (l1 @ l2)"
    "list_all (\<lambda>a. success (result a) \<and> issue a \<in> A) (n1 @ n2)"
    "length (attempts (trace s2)) =
       length (attempts (trace s)) + length (n1 @ n2) + length (l1 @ l2)"
    using 1 2 by simp_all
  then show ?thesis unfolding books_def by blast
qed

lemma books_mono: "A \<subseteq> B \<Longrightarrow> books A s s' \<Longrightarrow> books B s s'"
  unfolding books_def list_all_iff by blast

lemma books_quiet:
  "appliedFixes s' = appliedFixes s \<Longrightarrow> failures (trace s') = failures (trace s) \<Longrightarrow>
   attempts (trace s') = attempts (trace s) \<Longrightarrow> books A s s'"
  by (simp add: books_def)

lemma books_applyFix: "books {i} s (applyFix env i s)"
proof -
  from applyFix_outcome[of env i s] show ?thesis
  proof (elim disjE exE conjE)
    fix r
    assume "success r"
      "appliedFixes (applyFix env i s) =
         appliedFixes s @ [\<lparr>issue = i, result = r, timestamp = now env (world (applyFix env i s))\<rparr>]"
      "failures (trace (applyFix env i s)) = failures (trace s)"
    then show ?thesis
      unfolding books_def
      by (intro exI[of _ "[\<lparr>issue = i, result = r,
             timestamp = now env (world (applyFix env i s))\<rparr>]"] exI[of _ "[]"])
         (simp add: applyFix_attempts)
  next
    fix l
    assume "appliedFixes (applyFix env i s) = appliedFixes s"
      "failures (trace (applyFix env i s)) = failures (trace s) @ [l]"
    then show ?thesis
      unfolding books_def
      by (intro exI[of _ "[]"] exI[of _ "[l]"]) (simp add: applyFix_attempts)
  qed
qed

lemma books_foldl: "books (set xs) s (foldl (\<lambda>s' i. applyFix env i s') s xs)"
proof (induction xs arbitrary: s)
  case Nil
  show ?case by (simp add: books_refl)
next
  case (Cons i xs)
  have "books (set (i # xs)) s (applyFix env i s)"
    by (rule books_mono[OF _ books_applyFix]) simp
  moreover have "books (set (i # xs)) (applyFix env i s)
      (foldl (\<lambda>s' i. applyFix env i s') (applyFix env i s) xs)"
    by (rule books_mono[OF _ Cons.IH]) auto
  ultimately show ?case by (simp add: books_trans)
qed

lemma books_confirm_each: "books (set xs) s (confirm_each env xs s)"
proof (induction xs arbitrary: s)
  case Nil
  show ?case by (simp add: books_refl)
next
  case (Cons i rest)
  obtain b w where ask: "promptUser env ''Apply this fix? (y/n): '' (world (announce i s)) = (b, w)"
    by (cases "promptUser env ''Apply this fix? (y/n): '' (world (announce i s))")
  define s1 where "s1 = emit (Answered i b) (announce i s\<lparr>world := w\<rparr>)"
  define s2 where "s2 = (if b then applyFix env i s1 else s1)"
  have step: "confirm_each env (i # rest) s = confirm_each env rest s2"
    using ask by (simp add: s1_def s2_def)
  have b1: "books (set (i # rest)) s s1"
    by (rule books_quiet)
       (simp_all add: s1_def emit_def announce_def failures_append attempts_append)
  have b2: "books (set (i # rest)) s1 s2"
    unfolding s2_def using books_mono[OF _ books_applyFix[of i s1 env], of "set (i # rest)"]
    by (simp add: books_refl)
  have b3: "books (set (i # rest)) s2 (confirm_each env rest s2)"
    by (rule books_mono[OF _ Cons.IH]) auto
  show ?case unfolding step using b1 b2 b3 by (blast intro: books_trans)
qed

lemma books_applyFixes: "books (set (issues s)) s (applyFixes env s)"
proof -
  let ?A = "set (issues s)"
  let ?safe = "filter (\<lambda>i. 9 / 10 \<le> confidence i) (issues s)"
  let ?sugg = "filter (\<lambda>i. confidence i < 9 / 10) (issues s)"
  define s0 where "s0 = emit (Console ApplyingFixes) s"
  define s1 where "s1 = foldl (\<lambda>s' i. applyFix env i s') s0 ?safe"
  define s2 where "s2 = (if 0 < length ?sugg then presentSuggestedFixes env ?sugg s1 else s1)"
  have eq: "applyFixes env s = emit (Console (AppliedCount (length (appliedFixes s2)))) s2"
    by (simp add: applyFixes_def Let_def s0_def s1_def s2_def)
  have b0: "books ?A s s0"
    by (rule books_quiet) (simp_all add: s0_def emit_def failures_append attempts_append)
  have b1: "books ?A s0 s1"
    unfolding s1_def by (rule books_mono[OF _ books_foldl]) auto
  have bh: "books ?A s1 (emit (Console SuggestedHeader) s1)"
    by (rule books_quiet) (simp_all add: emit_def failures_append attempts_append)
  have bc: "books ?A (emit (Console SuggestedHeader) s1)
      (confirm_each env ?sugg (emit (Console SuggestedHeader) s1))"
    by (rule books_mono[OF _ books_confirm_each]) auto
  have b2: "books ?A s1 s2"
    unfolding s2_def presentSuggestedFixes_def using bh bc
    by (auto intro: books_trans books_refl)
  have b3: "books ?A s2 (applyFixes env s)"
    unfolding eq
    by (rule books_quiet) (simp_all add: emit_def failures_append attempts_append)
  from b0 b1 b2 b3 show ?thesis by (blast intro: books_trans)
qed

lemma accepted_mset: "mset (map fst (filter snd (zip xs bs))) \<subseteq># mset xs"
proof (induction xs arbitrary: bs)
  case Nil
  show ?case by simp
next
  case (Cons x xs)
  show ?case
  proof (cases bs)
    case Nil
    then show ?thesis by simp
  next
    case (Cons b bs')
    from Cons.IH[of bs'] have "mset (map fst (filter snd (zip xs bs'))) \<subseteq># add_mset x (mset xs)"
      by (rule subset_mset.order_trans) simp
    with Cons.IH[of bs'] Cons show ?thesis by simp
  qed
qed

lemma partition_mset:
  "mset (filter (\<lambda>i. 9 / 10 \<le> confidence i) xs) + mset (filter (\<lambda>i. confidence i < 9 / 10) xs)
     = mset xs"
  by (induction xs) auto

lemma run_min_length: "run ns s p cs = Some (e, cs') \<Longrightarrow> p + min_length ns \<le> e"
proof (induction ns s p cs arbitrary: e cs' rule: run.induct)
  case (1 s p cs)
  then show ?case by simp
next
  case (2 k ns s p cs)
  then show ?case by (cases s) (auto split: if_splits)
next
  case (3 k ns s p cs)
  show ?case
  proof (cases s)
    case Nil
    with 3 show ?thesis by simp
  next
    case (Cons x xs)
    show ?thesis
    proof (cases "in_class k x")
      case True
      show ?thesis
      proof (cases "run (Star k # ns) xs (Suc p) cs")
        case None
        with 3 Cons True show ?thesis by simp
      next
        case (Some r)
        with 3(2)[OF Cons True, of e cs'] 3(5) Cons True show ?thesis by simp
      qed
    next
      case False
      with 3 Cons show ?thesis by simp
    qed
  qed
next
  case (4 k ns s p cs)
  then show ?case by (cases s) (auto split: if_splits)
next
  case (5 i ns s p cs)
  then show ?case by simp
next
  case (6 i ns s p cs)
  then show ?case by simp
next
  case (7 look ns s p cs)
  show ?case
  proof (cases "run look s p cs")
    case None
    with 7 show ?thesis by simp
  next
    case (Some r)
    with 7(3) show ?thesis by simp
  qed
qed

lemma search_min_length:
  "search ns s p = Some (b, e, cs) \<Longrightarrow> p \<le> b \<and> b + min_length ns \<le> e"
proof (induction s arbitrary: p)
  case Nil
  then show ?case by (auto split: option.splits dest: run_min_length)
next
  case (Cons x xs)
  show ?case
  proof (cases "run ns (x # xs) p []")
    case None
    with Cons.prems have "search ns xs (Suc p) = Some (b, e, cs)" by simp
    from Cons.IH[OF this] show ?thesis by simp
  next
    case (Some r)
    with Cons.prems show ?thesis by (cases r) (auto dest: run_min_length)
  qed
qed

lemma exec_advances:
  "exec re content = (Some m, re') \<Longrightarrow>
     source re' = source re \<and> lastIndex re + min_length (source re) \<le> lastIndex re'"
  by (auto simp: exec_def split: if_splits option.splits dest!: search_min_length)

lemma exec_all_total:
  "0 < min_length (source re) \<Longrightarrow> \<exists>ms. exec_all re content = Some ms"
proof (induction re content rule: exec_all.induct)
  case (1 re content)
  show ?case
  proof (cases "exec re content")
    case (Pair a re')
    show ?thesis
    proof (cases a)
      case None
      with Pair show ?thesis by simp
    next
      case (Some m)
      with Pair have ex: "exec re content = (Some m, re')" by simp
      from exec_advances[OF ex] "1.prems"
      have adv: "source re' = source re" "lastIndex re < lastIndex re'" by auto
      then have "\<not> lastIndex re' \<le> lastIndex re" by simp
      from "1.IH"[OF Pair[symmetric] Some this] adv(1) "1.prems"
      obtain ms where "exec_all re' content = Some ms" by auto
      with ex adv(2) show ?thesis by simp
    qed
  qed
qed

lemma findMissingKeys_total: "\<exists>ks. findMissingKeys h content path = Some ks"
proof -
  have "0 < min_length (source \<lparr>source = mapPattern, lastIndex = 0\<rparr>)"
    by (simp add: mapPattern_def lit_def)
  from exec_all_total[OF this, of content] show ?thesis
    by (auto simp: findMissingKeys_def)
qed

lemma findMissingErrorHandling_total: "\<exists>es. findMissingErrorHandling h content path = Some es"
proof -
  have "0 < min_length (source \<lparr>source = supabasePattern, lastIndex = 0\<rparr>)"
    by (simp add: supabasePattern_def lit_def)
  from exec_all_total[OF this, of content] show ?thesis
    by (auto simp: findMissingErrorHandling_def)
qed

lemma findMissingKeys_category:
  "findMissingKeys h content path = Some ks \<Longrightarrow> i \<in> set ks \<Longrightarrow> category i = ''react''"
  by (auto simp: findMissingKeys_def)

lemma findMissingErrorHandling_category:
  "findMissingErrorHandling h content path = Some es \<Longrightarrow> i \<in> set es \<Longrightarrow>
     category i = ''supabase''"
  by (auto simp: findMissingErrorHandling_def)

lemma registered:
  "map_of (fixers (new_AutoFixer cfg w)) ''react'' = Some ReactFixer"
  "map_of (fixers (new_AutoFixer cfg w)) ''supabase'' = Some SupabaseFixer"
  by (simp_all add: new_AutoFixer_def initializeFixers_def)

lemma ReactFixer_analyze_total: "\<exists>found. ReactFixer_analyze h content path = Some found"
  using findMissingKeys_total[of h content path] by (auto simp: ReactFixer_analyze_def)

lemma SupabaseFixer_analyze_total: "\<exists>found. SupabaseFixer_analyze h content path = Some found"
  using findMissingErrorHandling_total[of h content path]
  by (auto simp: SupabaseFixer_analyze_def)

lemma analyze_total: "\<exists>found. analyze env f content path = Some found"
  using ReactFixer_analyze_total[of "helper_methods env" content path]
    SupabaseFixer_analyze_total[of "helper_methods env" content path]
  by (cases f) (auto simp: analyze_def)

lemma analyze_with_grows:
  "\<exists>found. analyze_with env fs fileType content path acc = Some found \<and> prefix acc found"
proof (induction fs arbitrary: acc)
  case Nil
  show ?case by simp
next
  case (Cons nf fs)
  obtain name f where nf: "nf = (name, f)" by (cases nf)
  show ?case
  proof (cases "canHandle env f fileType")
    case False
    with Cons.IH[of acc] nf show ?thesis by simp
  next
    case True
    from analyze_total[of env f content path] obtain fileIssues where
      a: "analyze env f content path = Some fileIssues" by blast
    from Cons.IH[of "acc @ fileIssues"] obtain found where
      "analyze_with env fs fileType content path (acc @ fileIssues) = Some found"
      "prefix (acc @ fileIssues) found" by blast
    with True a nf show ?thesis by (auto dest: append_prefixD)
  qed
qed

lemma analyzeFile_grows:
  "\<exists>s'. final (analyzeFile env path s) = Some s' \<and> prefix (issues s) (issues s') \<and>
     fixers s' = fixers s \<and> config s' = config s \<and> trace s' = trace s"
proof (cases "readFile env path (world s)")
  case (Pair r w)
  show ?thesis
  proof (cases r)
    case (Inl e)
    with Pair show ?thesis by (simp add: analyzeFile_def)
  next
    case (Inr content)
    from analyze_with_grows[of env "fixers s" "detectFileType env path" content path "issues s"]
    obtain found where
      "analyze_with env (fixers s) (detectFileType env path) content path (issues s) = Some found"
      "prefix (issues s) found" by blast
    with Pair Inr show ?thesis by (simp add: analyzeFile_def)
  qed
qed

lemma analyze_files_grows:
  "\<exists>s'. final (analyze_files env files s) = Some s' \<and> prefix (issues s) (issues s') \<and>
     fixers s' = fixers s \<and> config s' = config s \<and> trace s' = trace s"
proof (induction files arbitrary: s)
  case Nil
  show ?case by simp
next
  case (Cons path files)
  from analyzeFile_grows[of env path s] obtain s1 where s1:
    "final (analyzeFile env path s) = Some s1" "prefix (issues s) (issues s1)"
    "fixers s1 = fixers s" "config s1 = config s" "trace s1 = trace s" by blast
  show ?case
  proof (cases "analyzeFile env path s")
    case (Returns s')
    with s1 have eq: "s' = s1" by simp
    from Cons.IH[of s1] obtain s2 where
      "final (analyze_files env files s1) = Some s2" "prefix (issues s1) (issues s2)"
      "fixers s2 = fixers s1" "config s2 = config s1" "trace s2 = trace s1" by blast
    with s1 Returns eq show ?thesis by (auto intro: prefix_order.trans)
  next
    case (Throws e s')
    with s1 show ?thesis by simp
  next
    case Diverges
    with s1 show ?thesis by simp
  qed
qed

lemma analyzeProject_grows:
  "\<exists>s'. final (analyzeProject env projectPath s) = Some s' \<and> prefix (issues s) (issues s') \<and>
     fixers s' = fixers s \<and> config s' = config s \<and>
     attempts (trace s') = attempts (trace s) \<and> answers (trace s') = answers (trace s)"
proof (cases "getProjectFiles env projectPath (world (emit (Console Analyzing) s))")
  case (Pair r w)
  show ?thesis
  proof (cases r)
    case (Inl e)
    with Pair show ?thesis
      by (simp add: analyzeProject_def emit_def attempts_append answers_append)
  next
    case (Inr files)
    define s0 where "s0 = emit (Console Analyzing) s\<lparr>world := w\<rparr>"
    from analyze_files_grows[of env files s0] obtain s1 where s1:
      "final (analyze_files env files s0) = Some s1" "prefix (issues s0) (issues s1)"
      "fixers s1 = fixers s0" "config s1 = config s0" "trace s1 = trace s0" by blast
    have s0: "issues s0 = issues s" "fixers s0 = fixers s" "config s0 = config s"
      "attempts (trace s0) = attempts (trace s)" "answers (trace s0) = answers (trace s)"
      by (simp_all add: s0_def emit_def attempts_append answers_append)
    show ?thesis
    proof (cases "analyze_files env files s0")
      case (Returns s')
      with s1 s0 Pair Inr show ?thesis
        by (simp add: analyzeProject_def s0_def[symmetric] emit_fields
              attempts_append answers_append)
    next
      case (Throws e s')
      with s1 s0 Pair Inr show ?thesis
        by (simp add: analyzeProject_def s0_def[symmetric])
    next
      case Diverges
      with s1 show ?thesis by simp
    qed
  qed
qed

lemma applyFix_fixers: "fixers (applyFix env i s) = fixers s"
  by (simp add: applyFix_def emit_fields split: prod.splits sum.splits)

lemma foldl_applyFix_fixers: "fixers (foldl (\<lambda>s' i. applyFix env i s') s xs) = fixers s"
  by (induction xs arbitrary: s) (simp_all add: applyFix_fixers)

lemma confirm_each_fixers: "fixers (confirm_each env xs s) = fixers s"
  by (induction xs arbitrary: s)
     (simp_all add: applyFix_fixers announce_def emit_fields split: prod.splits)

lemma applyFixes_fixers: "fixers (applyFixes env s) = fixers s"
  by (simp add: applyFixes_def Let_def emit_fields presentSuggestedFixes_def
        confirm_each_fixers foldl_applyFix_fixers)

lemma attempt_threshold:
  "attempt env i (config_update (map_option (confidence_threshold_update (\<lambda>_. t))) s)
     = attempt env i s"
  by (cases "config s") (simp_all add: attempt_def split: prod.splits sum.splits)

lemma applyFix_threshold:
  "applyFix env i (config_update (map_option (confidence_threshold_update (\<lambda>_. t))) s)
     = config_update (map_option (confidence_threshold_update (\<lambda>_. t))) (applyFix env i s)"
  by (simp add: applyFix_def attempt_threshold emit_def split: prod.splits sum.splits)

lemma foldl_applyFix_threshold:
  "foldl (\<lambda>s' i. applyFix env i s')
       (config_update (map_option (confidence_threshold_update (\<lambda>_. t))) s) xs
     = config_update (map_option (confidence_threshold_update (\<lambda>_. t)))
         (foldl (\<lambda>s' i. applyFix env i s') s xs)"
  by (induction xs arbitrary: s) (simp_all add: applyFix_threshold)

lemma confirm_each_threshold:
  "confirm_each env xs (config_update (map_option (confidence_threshold_update (\<lambda>_. t))) s)
     = config_update (map_option (confidence_threshold_update (\<lambda>_. t)))
         (confirm_each env xs s)"
proof (induction xs arbitrary: s)
  case Nil
  show ?case by simp
next
  case (Cons i rest)
  let ?U = "config_update (map_option (confidence_threshold_update (\<lambda>_. t)))"
  have a: "announce i (?U s) = ?U (announce i s)" by (simp add: announce_def emit_def)
  obtain b w where ask: "promptUser env ''Apply this fix? (y/n): '' (world (announce i s)) = (b, w)"
    by (cases "promptUser env ''Apply this fix? (y/n): '' (world (announce i s))")
  have e: "\<And>b x. emit (Answered i b) (?U x\<lparr>world := w\<rparr>)
      = ?U (emit (Answered i b) (x\<lparr>world := w\<rparr>))"
    by (simp add: emit_def)
  have w: "\<And>x. world (?U x) = world x" by simp
  show ?case
  proof (cases b)
    case True
    with ask show ?thesis
      by (simp only: confirm_each.simps w a e applyFix_threshold Cons.IH prod.case if_True)
  next
    case False
    with ask show ?thesis
      by (simp only: confirm_each.simps w a e Cons.IH prod.case if_False)
  qed
qed

lemma applyFixes_threshold:
  "applyFixes env (config_update (map_option (confidence_threshold_update (\<lambda>_. t))) s)
     = config_update (map_option (confidence_threshold_update (\<lambda>_. t))) (applyFixes env s)"
proof -
  let ?U = "config_update (map_option (confidence_threshold_update (\<lambda>_. t)))"
  have e: "\<And>l s. emit l (?U s) = ?U (emit l s)" by (simp add: emit_def)
  show ?thesis
    by (simp add: applyFixes_def Let_def e foldl_applyFix_threshold confirm_each_threshold
          presentSuggestedFixes_def)
qed


lemma applyFix_config: "config (applyFix env i s) = config s"
  by (simp add: applyFix_def emit_fields split: prod.splits sum.splits)

lemma foldl_applyFix_config: "config (foldl (\<lambda>s' i. applyFix env i s') s xs) = config s"
  by (induction xs arbitrary: s) (simp_all add: applyFix_config)

lemma confirm_each_config: "config (confirm_each env xs s) = config s"
  by (induction xs arbitrary: s)
     (simp_all add: applyFix_config announce_def emit_fields split: prod.splits)

lemma applyFixes_config: "config (applyFixes env s) = config s"
  by (simp add: applyFixes_def Let_def emit_fields presentSuggestedFixes_def
        confirm_each_config foldl_applyFix_config)

lemma run_Star_Cons:
  "run (Star k # ns) (x # xs) p cs =
     (if in_class k x
      then (case run (Star k # ns) xs (Suc p) cs of
              Some r \<Rightarrow> Some r
            | None \<Rightarrow> run ns (x # xs) p cs)
      else run ns (x # xs) p cs)"
  by (subst run.simps(3)) (simp only: list.case)

lemma run_Star_Nil: "run (Star k # ns) [] p cs = run ns [] p cs"
  by (subst run.simps(3)) (simp only: list.case)

lemma star_close_succeeds: "\<exists>r. run [Star k, Close i] s p cs = Some r"
proof (induction s arbitrary: p)
  case Nil
  show ?case by (simp only: run_Star_Nil run.simps(6) run.simps(1)) blast
next
  case (Cons x xs)
  from Cons.IH[of "Suc p"] obtain r where "run [Star k, Close i] xs (Suc p) cs = Some r" by blast
  then show ?case
    by (cases "in_class k x")
       (simp_all only: run_Star_Cons run.simps(6) run.simps(1) option.case if_True if_False,
        blast+)
qed

lemma lookahead_never_rejects:
  "run [Star (Except CHR ''>''), Close i, NotAhead (Star (Except CHR ''>'') # lit ''key='')] s p cs
     = run [Star (Except CHR ''>''), Close i] s p cs"
proof (induction s arbitrary: p)
  case Nil
  show ?case by (simp add: lit_def)
next
  case (Cons x xs)
  show ?case
  proof (cases "x = CHR ''>''")
    case True
    then show ?thesis by (simp add: lit_def)
  next
    case False
    from star_close_succeeds[of "Except CHR ''>''" i xs "Suc p" cs] obtain r where
      r: "run [Star (Except CHR ''>''), Close i] xs (Suc p) cs = Some r" by blast
    with Cons.IH[of "Suc p"] have
      "run [Star (Except CHR ''>''), Close i,
            NotAhead (Star (Except CHR ''>'') # lit ''key='')] xs (Suc p) cs = Some r"
      by simp
    with r False show ?thesis
      by (simp only: run_Star_Cons in_class.simps if_True option.case simp_thms)
  qed
qed

lemma run_same_tail:
  assumes "\<And>s p cs. run t1 s p cs = run t2 s p cs"
  shows "run (ns @ t1) s p cs = run (ns @ t2) s p cs"
proof (induction ns arbitrary: s p cs)
  case Nil
  show ?case by (simp add: assms)
next
  case (Cons n ns)
  have star: "run (Star k # ns @ t1) s p cs = run (Star k # ns @ t2) s p cs" for k s p cs
  proof (induction s arbitrary: p)
    case Nil
    show ?case by (simp only: run_Star_Nil Cons.IH)
  next
    case (Cons x xs)
    show ?case by (simp only: run_Star_Cons Cons.IH \<open>\<And>s p cs. run (ns @ t1) s p cs = run (ns @ t2) s p cs\<close>)
  qed
  show ?case
  proof (cases n)
    case (One k)
    then show ?thesis by (cases s) (simp_all add: Cons.IH)
  next
    case (Star k)
    then show ?thesis by (simp only: append_Cons star)
  next
    case (Plus k)
    then show ?thesis by (cases s) (simp_all del: run.simps(3) add: star)
  next
    case (Open i)
    then show ?thesis by (simp add: Cons.IH)
  next
    case (Close i)
    then show ?thesis by (simp add: Cons.IH)
  next
    case (NotAhead look)
    then show ?thesis by (cases "run look s p cs") (simp_all add: Cons.IH)
  qed
qed


lemma mapPattern_split:
  "mapPattern =
     (lit ''.map'' @ [Star WhiteSpace, One (Only CHR ''(''), Star WhiteSpace,
        Open 1, Plus (Except CHR '')''), Close 1, Star WhiteSpace] @
      lit ''=>'' @ [Star WhiteSpace, One (Only CHR ''<''), Open 2]) @
     [Plus (Except CHR ''>''), Close 2,
      NotAhead (Star (Except CHR ''>'') # lit ''key='')]"
  "butlast mapPattern =
     (lit ''.map'' @ [Star WhiteSpace, One (Only CHR ''(''), Star WhiteSpace,
        Open 1, Plus (Except CHR '')''), Close 1, Star WhiteSpace] @
      lit ''=>'' @ [Star WhiteSpace, One (Only CHR ''<''), Open 2]) @
     [Plus (Except CHR ''>''), Close 2]"
  by (simp_all add: mapPattern_def lit_def)

lemma run_mapPattern_lookahead:
  "run mapPattern s p cs = run (butlast mapPattern) s p cs"
proof -
  have "run [Plus (Except CHR ''>''), Close 2,
             NotAhead (Star (Except CHR ''>'') # lit ''key='')] s p cs
      = run [Plus (Except CHR ''>''), Close 2] s p cs" for s p cs
    by (cases s) (simp_all only: run.simps(4) list.case lookahead_never_rejects)
  then have "run ((lit ''.map'' @ [Star WhiteSpace, One (Only CHR ''(''), Star WhiteSpace,
        Open 1, Plus (Except CHR '')''), Close 1, Star WhiteSpace] @
      lit ''=>'' @ [Star WhiteSpace, One (Only CHR ''<''), Open 2]) @
     [Plus (Except CHR ''>''), Close 2,
      NotAhead (Star (Except CHR ''>'') # lit ''key='')]) s p cs
    = run ((lit ''.map'' @ [Star WhiteSpace, One (Only CHR ''(''), Star WhiteSpace,
        Open 1, Plus (Except CHR '')''), Close 1, Star WhiteSpace] @
      lit ''=>'' @ [Star WhiteSpace, One (Only CHR ''<''), Open 2]) @
     [Plus (Except CHR ''>''), Close 2]) s p cs"
    by (rule run_same_tail)
  then show ?thesis
    by (simp only: mapPattern_split(2)) (simp only: mapPattern_split(1))
qed

lemma search_mapPattern_lookahead:
  "search mapPattern s p = search (butlast mapPattern) s p"
  by (induction s arbitrary: p) (simp_all add: run_mapPattern_lookahead split: option.splits)

lemma group_count_mapPattern: "group_count (butlast mapPattern) = group_count mapPattern"
  by (simp add: mapPattern_def lit_def)

lemma exec_mapPattern_lookahead:
  "exec \<lparr>source = butlast mapPattern, lastIndex = n\<rparr> content =
     (case exec \<lparr>source = mapPattern, lastIndex = n\<rparr> content of
        (m, re') \<Rightarrow> (m, \<lparr>source = butlast mapPattern, lastIndex = lastIndex re'\<rparr>))"
  by (simp add: exec_def search_mapPattern_lookahead group_count_mapPattern
        split: option.splits)

lemma exec_source: "source (snd (exec re content)) = source re"
  by (simp add: exec_def split: option.splits)

lemma exec_all_mapPattern_lookahead:
  "source re = mapPattern \<Longrightarrow>
     exec_all re content = exec_all \<lparr>source = butlast mapPattern, lastIndex = lastIndex re\<rparr> content"
proof (induction re content rule: exec_all.induct)
  case (1 re content)
  have re: "re = \<lparr>source = mapPattern, lastIndex = lastIndex re\<rparr>"
    using "1.prems" by (cases re) simp
  obtain a re' where ex: "exec re content = (a, re')" by (cases "exec re content")
  have src: "source re' = mapPattern"
    using exec_source[of re content] ex "1.prems" by simp
  have ex': "exec \<lparr>source = butlast mapPattern, lastIndex = lastIndex re\<rparr> content
      = (a, \<lparr>source = butlast mapPattern, lastIndex = lastIndex re'\<rparr>)"
    using exec_mapPattern_lookahead[of "lastIndex re" content] ex re by simp
  show ?case
  proof (cases a)
    case None
    with ex ex' show ?thesis
      by (subst exec_all.simps, subst (2) exec_all.simps) simp
  next
    case (Some m)
    show ?thesis
    proof (cases "lastIndex re' \<le> lastIndex re")
      case True
      with Some ex ex' show ?thesis
        by (subst exec_all.simps, subst (2) exec_all.simps) simp
    next
      case False
      from "1.IH"[OF ex[symmetric] Some False src]
      have "exec_all re' content
          = exec_all \<lparr>source = butlast mapPattern, lastIndex = lastIndex re'\<rparr> content" .
      with False Some ex ex' show ?thesis
        by (subst exec_all.simps, subst (2) exec_all.simps) simp
    qed
  qed
qed






section \<open>Properties\<close>

subsection \<open>The detectors on the documented scenarios\<close>

text \<open>
  C4: on the text \<^verbatim>\<open>items.map(item => <div>{item.name}</div>)\<close> the missing-key
  detector of \<^verbatim>\<open>ReactFixer\<close> finds exactly one issue, of category \<^verbatim>\<open>react\<close>,
  type \<^verbatim>\<open>missing_key\<close> and confidence 0.95; \<^verbatim>\<open>analyze\<close> returns it first,
  followed by whatever the hook and state-mutation checks find; and replacing
  the original span of its proposed fix by the fixed text gives the same call
  with the index-based attribute \<^verbatim>\<open>key={index}\<close> on the list element.
\<close>

theorem scenario_A_missing_key:
  "findMissingKeys h ''items.map(item => <div>{item.name}</div>)'' path =
     Some [\<lparr>category = ''react'', type = ''missing_key'',
            description = ''Missing key prop in list item'', filePath = path,
            line = getLineNumber h ''items.map(item => <div>{item.name}</div>)'' 5,
            confidence = 95 / 100,
            fix' = \<lparr>original = ''.map(item => <div'',
                      fixed = ''.map(item => <div key={index}''\<rparr>\<rparr>]
   \<and> ReactFixer_analyze h ''items.map(item => <div>{item.name}</div>)'' path =
     Some (\<lparr>category = ''react'', type = ''missing_key'',
            description = ''Missing key prop in list item'', filePath = path,
            line = getLineNumber h ''items.map(item => <div>{item.name}</div>)'' 5,
            confidence = 95 / 100,
            fix' = \<lparr>original = ''.map(item => <div'',
                      fixed = ''.map(item => <div key={index}''\<rparr>\<rparr>
           # findHookIssues h ''items.map(item => <div>{item.name}</div>)'' path
           @ findStateMutations h ''items.map(item => <div>{item.name}</div>)'' path)
   \<and> apply_replacement
         \<lparr>original = ''.map(item => <div'', fixed = ''.map(item => <div key={index}''\<rparr>
         ''items.map(item => <div>{item.name}</div>)''
       = Some ''items.map(item => <div key={index}>{item.name}</div>)''"
  by code_simp

text \<open>
  C3: the claim is that a list rendering whose element already carries a
  \<^verbatim>\<open>key\<close> attribute gives no missing-key issue. The code gives one: the
  greedy group \<^verbatim>\<open>([^>]+)\<close> takes the whole tag, \<^verbatim>\<open>key=\<close> included, and the
  lookahead \<^verbatim>\<open>(?![^>]*key=)\<close> is then tried in front of \<^verbatim>\<open>>\<close> or at the end
  of the text, where it cannot fail. So for every content the matches are
  those of the pattern without the lookahead (its last node), a keyed
  element is flagged, and the detector flags the output of its own fix again.
\<close>

theorem keyed_list_still_flagged:
  "exec_all \<lparr>source = mapPattern, lastIndex = 0\<rparr> content
     = exec_all \<lparr>source = butlast mapPattern, lastIndex = 0\<rparr> content
   \<and> findMissingKeys h ''items.map(item => <div key={item.id}>{item.name}</div>)'' path =
     Some [\<lparr>category = ''react'', type = ''missing_key'',
            description = ''Missing key prop in list item'', filePath = path,
            line = getLineNumber h
                     ''items.map(item => <div key={item.id}>{item.name}</div>)'' 5,
            confidence = 95 / 100,
            fix' = \<lparr>original = ''.map(item => <div key={item.id}'',
                      fixed = ''.map(item => <div key={item.id} key={index}''\<rparr>\<rparr>]
   \<and> findMissingKeys h ''items.map(item => <div key={index}>{item.name}</div>)'' path =
     Some [\<lparr>category = ''react'', type = ''missing_key'',
            description = ''Missing key prop in list item'', filePath = path,
            line = getLineNumber h
                     ''items.map(item => <div key={index}>{item.name}</div>)'' 5,
            confidence = 95 / 100,
            fix' = \<lparr>original = ''.map(item => <div key={index}'',
                      fixed = ''.map(item => <div key={index} key={index}''\<rparr>\<rparr>]"
proof -
  have general: "exec_all \<lparr>source = mapPattern, lastIndex = 0\<rparr> content
     = exec_all \<lparr>source = butlast mapPattern, lastIndex = 0\<rparr> content"
    using exec_all_mapPattern_lookahead[of "\<lparr>source = mapPattern, lastIndex = 0\<rparr>" content]
    by simp
  have keyed: "findMissingKeys h ''items.map(item => <div key={item.id}>{item.name}</div>)'' path =
     Some [\<lparr>category = ''react'', type = ''missing_key'',
            description = ''Missing key prop in list item'', filePath = path,
            line = getLineNumber h
                     ''items.map(item => <div key={item.id}>{item.name}</div>)'' 5,
            confidence = 95 / 100,
            fix' = \<lparr>original = ''.map(item => <div key={item.id}'',
                      fixed = ''.map(item => <div key={item.id} key={index}''\<rparr>\<rparr>]"
    by code_simp
  have again: "findMissingKeys h ''items.map(item => <div key={index}>{item.name}</div>)'' path =
     Some [\<lparr>category = ''react'', type = ''missing_key'',
            description = ''Missing key prop in list item'', filePath = path,
            line = getLineNumber h
                     ''items.map(item => <div key={index}>{item.name}</div>)'' 5,
            confidence = 95 / 100,
            fix' = \<lparr>original = ''.map(item => <div key={index}'',
                      fixed = ''.map(item => <div key={index} key={index}''\<rparr>\<rparr>]"
    by code_simp
  from general keyed again show ?thesis by (intro conjI)
qed

text \<open>
  C5: on \<^verbatim>\<open>const { data } = await supabase.from('users').select('*')\<close> the
  error-handling detector of \<^verbatim>\<open>SupabaseFixer\<close> finds exactly one issue, of
  confidence 0.9. Its proposed fix replaces only the matched text, which ends
  at the word \<^verbatim>\<open>supabase\<close>, so the throw statement lands between
  \<^verbatim>\<open>supabase\<close> and \<^verbatim>\<open>.from('users')\<close>: the result destructures \<^verbatim>\<open>data\<close> and
  \<^verbatim>\<open>error\<close> from the client object, not from the call.
\<close>

theorem scenario_B_fix_splits_the_call:
  "findMissingErrorHandling h ''const { data } = await supabase.from('users').select('*')'' path =
     Some [\<lparr>category = ''supabase'', type = ''missing_error_handling'',
            description = ''Missing error handling for Supabase call'', filePath = path,
            line = getLineNumber h
                     ''const { data } = await supabase.from('users').select('*')'' 0,
            confidence = 9 / 10,
            fix' = \<lparr>original = ''const { data } = await supabase'',
                      fixed = ''const { data, error } = await supabase\<newline>  if (error) throw error''\<rparr>\<rparr>]
   \<and> apply_replacement
         \<lparr>original = ''const { data } = await supabase'',
          fixed = ''const { data, error } = await supabase\<newline>  if (error) throw error''\<rparr>
         ''const { data } = await supabase.from('users').select('*')''
       = Some ''const { data, error } = await supabase\<newline>  if (error) throw error.from('users').select('*')''"
  by code_simp

subsection \<open>The partition by confidence\<close>

text \<open>
  C1: \<^verbatim>\<open>applyFixes\<close> splits \<^verbatim>\<open>this.issues\<close> at 0.9 with \<open>\<ge>\<close>. Every issue of
  confidence at least 0.9, the value 0.9 itself included, is handed to
  \<^verbatim>\<open>applyFix\<close> in the first loop and the user is never asked about it. Every
  issue of confidence below 0.9 is not in that loop: the user is asked about
  it, once, and it is handed to \<^verbatim>\<open>applyFix\<close> exactly when the answer is yes.
  \<open>bs\<close> are the answers, in the order of the suggested issues.
\<close>

theorem applyFixes_partition_at_threshold:
  fixes env :: "'w env" and s :: "'w state"
  defines "safe \<equiv> filter (\<lambda>i. 9 / 10 \<le> confidence i) (issues s)"
    and "suggested \<equiv> filter (\<lambda>i. confidence i < 9 / 10) (issues s)"
  shows "\<exists>bs. length bs = length suggested \<and>
      answers (trace (applyFixes env s)) = answers (trace s) @ zip suggested bs \<and>
      attempts (trace (applyFixes env s)) =
        attempts (trace s) @ safe @ map fst (filter snd (zip suggested bs)) \<and>
      (\<forall>i \<in> set (issues s). 9 / 10 \<le> confidence i \<longrightarrow>
         i \<in> set safe \<and> i \<notin> fst ` set (zip suggested bs)) \<and>
      (\<forall>i \<in> set (issues s). confidence i < 9 / 10 \<longrightarrow>
         i \<notin> set safe \<and> i \<in> fst ` set (zip suggested bs)) \<and>
      (\<forall>i \<in> set (map fst (filter snd (zip suggested bs))).
         confidence i < 9 / 10 \<and> (i, True) \<in> set (zip suggested bs))"
proof -
  from applyFixes_trace[of s env] obtain bs where bs:
    "length bs = length suggested"
    "answers (trace (applyFixes env s)) = answers (trace s) @ zip suggested bs"
    "attempts (trace (applyFixes env s)) =
       attempts (trace s) @ safe @ map fst (filter snd (zip suggested bs))"
    unfolding safe_def suggested_def by blast
  have asked: "fst ` set (zip suggested bs) = set suggested"
    using bs(1) by (metis list.set_map map_fst_zip)
  have a: "\<forall>i \<in> set (issues s). 9 / 10 \<le> confidence i \<longrightarrow>
      i \<in> set safe \<and> i \<notin> fst ` set (zip suggested bs)"
    unfolding asked by (auto simp: safe_def suggested_def)
  have b: "\<forall>i \<in> set (issues s). confidence i < 9 / 10 \<longrightarrow>
      i \<notin> set safe \<and> i \<in> fst ` set (zip suggested bs)"
    unfolding asked by (auto simp: safe_def suggested_def)
  have c: "\<forall>i \<in> set (map fst (filter snd (zip suggested bs))).
      confidence i < 9 / 10 \<and> (i, True) \<in> set (zip suggested bs)"
  proof
    fix i assume "i \<in> set (map fst (filter snd (zip suggested bs)))"
    then obtain b where "(i, b) \<in> set (zip suggested bs)" "b" by auto
    moreover from this(1) have "i \<in> set suggested" by (rule set_zip_leftD)
    ultimately show "confidence i < 9 / 10 \<and> (i, True) \<in> set (zip suggested bs)"
      by (auto simp: suggested_def)
  qed
  from bs a b c show ?thesis by blast
qed

theorem applyFixes_partition_at_threshold_witness:
  "issues ((new_AutoFixer (Some (example_config (9 / 10))) example_files)
            \<lparr>issues := [at_threshold, below_threshold]\<rparr>) = [at_threshold, below_threshold]
   \<and> 9 / 10 \<le> confidence at_threshold
   \<and> confidence below_threshold < 9 / 10
   \<and> attempts (trace (applyFixes (example_env False)
        ((new_AutoFixer (Some (example_config (9 / 10))) example_files)
            \<lparr>issues := [at_threshold, below_threshold]\<rparr>))) = [at_threshold]
   \<and> answers (trace (applyFixes (example_env False)
        ((new_AutoFixer (Some (example_config (9 / 10))) example_files)
            \<lparr>issues := [at_threshold, below_threshold]\<rparr>))) = [(below_threshold, False)]"
proof -
  let ?s = "(new_AutoFixer (Some (example_config (9 / 10))) example_files)
              \<lparr>issues := [at_threshold, below_threshold]\<rparr>"
  have i: "issues ?s = [at_threshold, below_threshold]" by simp
  have c: "9 / 10 \<le> confidence at_threshold" "confidence below_threshold < 9 / 10"
    by (simp_all add: at_threshold_def below_threshold_def)
  have t: "trace ?s = []" by (simp add: new_AutoFixer_def initializeFixers_def)
  have asked: "answers (trace (applyFixes (example_env False) ?s)) = [(below_threshold, False)]"
    by code_simp
  from applyFixes_partition_at_threshold[of ?s "example_env False"] obtain bs where
    "length bs = length (filter (\<lambda>i. confidence i < 9 / 10) (issues ?s))"
    "answers (trace (applyFixes (example_env False) ?s)) =
       answers (trace ?s) @ zip (filter (\<lambda>i. confidence i < 9 / 10) (issues ?s)) bs"
    "attempts (trace (applyFixes (example_env False) ?s)) =
       attempts (trace ?s) @ filter (\<lambda>i. 9 / 10 \<le> confidence i) (issues ?s)
         @ map fst (filter snd (zip (filter (\<lambda>i. confidence i < 9 / 10) (issues ?s)) bs))"
    by blast
  with i c t asked have "bs = [False]"
    "attempts (trace (applyFixes (example_env False) ?s)) =
       [at_threshold] @ map fst (filter snd (zip [below_threshold] bs))"
    by (auto simp: length_Suc_conv)
  then have "attempts (trace (applyFixes (example_env False) ?s)) = [at_threshold]" by simp
  with i c asked show ?thesis by simp
qed

subsection \<open>Failed fixes\<close>

text \<open>
  C6, as the code has it: a fix that fails (\<^verbatim>\<open>fix\<close> reports no success, or
  anything in \<^verbatim>\<open>applyFix\<close> throws) leaves one failure line on the console
  and no entry in \<^verbatim>\<open>appliedFixes\<close>, which only grows, by successful fixes.
  \<^verbatim>\<open>applyFixes\<close> goes on to the remaining issues whatever failed: it calls
  \<^verbatim>\<open>applyFix\<close> on every safe issue and on every confirmed suggested one, each
  call ends in exactly one applied fix or one failure line, and no issue of
  the list is tried more often than it occurs in the list.
\<close>

theorem applyFixes_failed_fix_logged_only:
  fixes env :: "'w env" and s :: "'w state"
  defines "safe \<equiv> filter (\<lambda>i. 9 / 10 \<le> confidence i) (issues s)"
    and "suggested \<equiv> filter (\<lambda>i. confidence i < 9 / 10) (issues s)"
  shows "\<exists>new lines bs.
      appliedFixes (applyFixes env s) = appliedFixes s @ new \<and>
      failures (trace (applyFixes env s)) = failures (trace s) @ lines \<and>
      (\<forall>a \<in> set new. success (result a) \<and> issue a \<in> set (issues s)) \<and>
      length bs = length suggested \<and>
      attempts (trace (applyFixes env s)) =
        attempts (trace s) @ safe @ map fst (filter snd (zip suggested bs)) \<and>
      length (safe @ map fst (filter snd (zip suggested bs))) = length new + length lines \<and>
      mset (safe @ map fst (filter snd (zip suggested bs))) \<subseteq># mset (issues s)"
proof -
  from books_applyFixes[of s env] obtain new lines where nl:
    "appliedFixes (applyFixes env s) = appliedFixes s @ new"
    "failures (trace (applyFixes env s)) = failures (trace s) @ lines"
    "list_all (\<lambda>a. success (result a) \<and> issue a \<in> set (issues s)) new"
    "length (attempts (trace (applyFixes env s))) =
       length (attempts (trace s)) + length new + length lines"
    unfolding books_def by blast
  from applyFixes_trace[of s env] obtain bs where bs:
    "length bs = length suggested"
    "attempts (trace (applyFixes env s)) =
       attempts (trace s) @ safe @ map fst (filter snd (zip suggested bs))"
    unfolding safe_def suggested_def by blast
  have all: "\<forall>a \<in> set new. success (result a) \<and> issue a \<in> set (issues s)"
    using nl(3) by (simp add: list_all_iff)
  have count: "length (safe @ map fst (filter snd (zip suggested bs))) = length new + length lines"
    using nl(4) bs(2) by simp
  have m1: "mset (map fst (filter snd (zip suggested bs))) \<subseteq># mset suggested"
    by (rule accepted_mset)
  have m2: "mset safe + mset suggested = mset (issues s)"
    unfolding safe_def suggested_def by (rule partition_mset)
  have once: "mset (safe @ map fst (filter snd (zip suggested bs))) \<subseteq># mset (issues s)"
    by (metis m1 m2 mset_append subset_mset.add_left_mono)
  from nl(1,2) all bs count once show ?thesis by blast
qed

text \<open>
  C6, as the claim states it, fails: the fix of \<open>at_threshold\<close> fails on a file
  that changed after the analysis, and \<^verbatim>\<open>appliedFixes\<close> holds no entry for it,
  failed or otherwise; the run goes on and applies the next fix.
\<close>

theorem failed_fix_not_recorded_counterexample:
  "fst (fixer_fix (example_env False) SupabaseFixer at_threshold example_files)
     = Inr \<lparr>success = False\<rparr>
   \<and> attempts (trace (applyFixes (example_env False)
        ((new_AutoFixer (Some (example_config (9 / 10))) example_files)
           \<lparr>issues := [at_threshold, missing_key]\<rparr>))) = [at_threshold, missing_key]
   \<and> map issue (appliedFixes (applyFixes (example_env False)
        ((new_AutoFixer (Some (example_config (9 / 10))) example_files)
           \<lparr>issues := [at_threshold, missing_key]\<rparr>))) = [missing_key]
   \<and> at_threshold \<notin> set (map issue (appliedFixes (applyFixes (example_env False)
        ((new_AutoFixer (Some (example_config (9 / 10))) example_files)
           \<lparr>issues := [at_threshold, missing_key]\<rparr>))))
   \<and> failures (trace (applyFixes (example_env False)
        ((new_AutoFixer (Some (example_config (9 / 10))) example_files)
           \<lparr>issues := [at_threshold, missing_key]\<rparr>)))
       = [FailedToFix ''Missing error handling for Supabase call'']"
  by code_simp

theorem applyFixes_failed_fix_logged_only_witness:
  "attempts (trace (applyFixes (example_env False)
        ((new_AutoFixer (Some (example_config (9 / 10))) example_files)
           \<lparr>issues := [at_threshold, missing_key]\<rparr>))) = [at_threshold, missing_key]
   \<and> appliedFixes (applyFixes (example_env False)
        ((new_AutoFixer (Some (example_config (9 / 10))) example_files)
           \<lparr>issues := [at_threshold, missing_key]\<rparr>))
       = [\<lparr>issue = missing_key, result = \<lparr>success = True\<rparr>,
           timestamp = ''2024-01-15T10:30:00.000Z''\<rparr>]
   \<and> failures (trace (applyFixes (example_env False)
        ((new_AutoFixer (Some (example_config (9 / 10))) example_files)
           \<lparr>issues := [at_threshold, missing_key]\<rparr>)))
       = [FailedToFix ''Missing error handling for Supabase call'']"
proof -
  let ?s = "(new_AutoFixer (Some (example_config (9 / 10))) example_files)
              \<lparr>issues := [at_threshold, missing_key]\<rparr>"
  have i: "issues ?s = [at_threshold, missing_key]" by simp
  have c: "9 / 10 \<le> confidence at_threshold" "9 / 10 \<le> confidence missing_key"
    by (simp_all add: at_threshold_def missing_key_def)
  have t: "trace ?s = []" by (simp add: new_AutoFixer_def initializeFixers_def)
  have ev: "appliedFixes (applyFixes (example_env False) ?s)
       = [\<lparr>issue = missing_key, result = \<lparr>success = True\<rparr>,
           timestamp = ''2024-01-15T10:30:00.000Z''\<rparr>]"
    "failures (trace (applyFixes (example_env False) ?s))
       = [FailedToFix ''Missing error handling for Supabase call'']"
    by code_simp+
  from applyFixes_failed_fix_logged_only[where s = ?s and env = "example_env False"] obtain bs where
    "length bs = length (filter (\<lambda>i. confidence i < 9 / 10) (issues ?s))"
    "attempts (trace (applyFixes (example_env False) ?s)) =
       attempts (trace ?s) @ filter (\<lambda>i. 9 / 10 \<le> confidence i) (issues ?s)
         @ map fst (filter snd (zip (filter (\<lambda>i. confidence i < 9 / 10) (issues ?s)) bs))"
    by blast
  with i c t have "attempts (trace (applyFixes (example_env False) ?s)) = [at_threshold, missing_key]"
    by simp
  with ev show ?thesis by simp
qed

subsection \<open>The configured threshold\<close>

text \<open>
  C2: the threshold of the configuration has no effect on \<^verbatim>\<open>applyFixes\<close>.
  Running it with \<^verbatim>\<open>confidence_threshold\<close> set to any \<open>t\<close> gives the same
  instance, world and trace as running it with the threshold the
  configuration had, only the stored configuration differs. On the example,
  whatever threshold \<open>t'\<close> is configured, the issue of confidence 0.9 is
  applied without asking and the user is asked about the issue of confidence
  0.85: with \<open>t' = 0.8\<close> the claim wants the second applied without asking,
  with \<open>t' = 0.95\<close> it wants the first asked about. The code compares with
  the literal 0.9 and never reads \<^verbatim>\<open>confidence_threshold\<close>.
\<close>

theorem applyFixes_ignores_configured_threshold:
  "applyFixes env (s\<lparr>config := Some (c\<lparr>confidence_threshold := t\<rparr>)\<rparr>)
     = (applyFixes env (s\<lparr>config := Some c\<rparr>))\<lparr>config := Some (c\<lparr>confidence_threshold := t\<rparr>)\<rparr>
   \<and> confidence_threshold (example_config t') = t'
   \<and> attempts (trace (applyFixes (example_env False)
        ((new_AutoFixer (Some (example_config t')) example_files)
           \<lparr>issues := [at_threshold, below_threshold]\<rparr>))) = [at_threshold]
   \<and> answers (trace (applyFixes (example_env False)
        ((new_AutoFixer (Some (example_config t')) example_files)
           \<lparr>issues := [at_threshold, below_threshold]\<rparr>))) = [(below_threshold, False)]"
proof -
  let ?U = "config_update (map_option (confidence_threshold_update (\<lambda>_. t)))"
  have 1: "?U (s\<lparr>config := Some c\<rparr>) = s\<lparr>config := Some (c\<lparr>confidence_threshold := t\<rparr>)\<rparr>"
    by simp
  have "config (applyFixes env (s\<lparr>config := Some c\<rparr>)) = Some c"
    by (simp add: applyFixes_config)
  then have 2: "?U (applyFixes env (s\<lparr>config := Some c\<rparr>))
      = (applyFixes env (s\<lparr>config := Some c\<rparr>))\<lparr>config := Some (c\<lparr>confidence_threshold := t\<rparr>)\<rparr>"
    by (cases "applyFixes env (s\<lparr>config := Some c\<rparr>)") simp
  have general: "applyFixes env (s\<lparr>config := Some (c\<lparr>confidence_threshold := t\<rparr>)\<rparr>)
     = (applyFixes env (s\<lparr>config := Some c\<rparr>))\<lparr>config := Some (c\<lparr>confidence_threshold := t\<rparr>)\<rparr>"
    using applyFixes_threshold[of env t "s\<lparr>config := Some c\<rparr>"] unfolding 1 2 .
  have concrete: "confidence_threshold (example_config t') = t'
   \<and> attempts (trace (applyFixes (example_env False)
        ((new_AutoFixer (Some (example_config t')) example_files)
           \<lparr>issues := [at_threshold, below_threshold]\<rparr>))) = [at_threshold]
   \<and> answers (trace (applyFixes (example_env False)
        ((new_AutoFixer (Some (example_config t')) example_files)
           \<lparr>issues := [at_threshold, below_threshold]\<rparr>))) = [(below_threshold, False)]"
    by code_simp
  from general concrete show ?thesis by blast
qed

subsection \<open>Determinism of the detectors\<close>



text \<open>
  The hypothesis on \<^verbatim>\<open>getLineNumber\<close> cannot be dropped: with a method that
  answers from the state, a second call of \<^verbatim>\<open>analyze\<close> on the same content and
  path reports another line.
\<close>

lemma analyze_follows_getLineNumber:
  "map_option fst (ReactFixer_analyze_st drifting_methods
       ''items.map(item => <div>{item.name}</div>)'' ''src/List.jsx'' 0)
     = Some [missing_key\<lparr>line := 0\<rparr>]
   \<and> map_option fst (ReactFixer_analyze_st drifting_methods
       ''items.map(item => <div>{item.name}</div>)'' ''src/List.jsx'' 3)
     = Some [missing_key\<lparr>line := 3\<rparr>]"
proof -
  have "map_option fst (ReactFixer_analyze_st drifting_methods
       ''items.map(item => <div>{item.name}</div>)'' ''src/List.jsx'' 0)
     = Some [missing_key\<lparr>line := 0\<rparr>]"
    by code_simp
  moreover have "map_option fst (ReactFixer_analyze_st drifting_methods
       ''items.map(item => <div>{item.name}</div>)'' ''src/List.jsx'' 3)
     = Some [missing_key\<lparr>line := 3\<rparr>]"
    by code_simp
  ultimately show ?thesis by simp
qed

subsection \<open>Categories and the fixer registry\<close>

text \<open>
  C9: every issue that \<^verbatim>\<open>findMissingKeys\<close> builds has category \<^verbatim>\<open>react\<close> and
  every issue that \<^verbatim>\<open>findMissingErrorHandling\<close> builds has category
  \<^verbatim>\<open>supabase\<close>; both are keys that \<^verbatim>\<open>initializeFixers\<close> registers, so
  \<^verbatim>\<open>this.fixers.get(issue.category)\<close> is the \<^verbatim>\<open>ReactFixer\<close>, respectively the
  \<^verbatim>\<open>SupabaseFixer\<close>, never \<^verbatim>\<open>undefined\<close>.
  The same holds for all that \<^verbatim>\<open>analyze\<close> returns when the checks that the
  document does not define give their issues the category of their fixer.
  Neither \<^verbatim>\<open>applyFixes\<close> nor \<^verbatim>\<open>analyzeProject\<close> changes the registry.
\<close>

theorem detected_categories_registered:
  fixes env :: "'w env" and s :: "'w state" and w :: 'w
  assumes "fixers s = fixers (new_AutoFixer cfg w)"
  shows "(\<exists>ks. findMissingKeys h content path = Some ks \<and>
            (\<forall>i \<in> set ks. category i = ''react'' \<and>
               map_of (fixers s) (category i) = Some ReactFixer)) \<and>
         (\<exists>es. findMissingErrorHandling h content path = Some es \<and>
            (\<forall>i \<in> set es. category i = ''supabase'' \<and>
               map_of (fixers s) (category i) = Some SupabaseFixer)) \<and>
         ((\<forall>i \<in> set (findHookIssues h content path @ findStateMutations h content path).
              category i = ''react'') \<longrightarrow>
          (\<exists>rs. ReactFixer_analyze h content path = Some rs \<and>
            (\<forall>i \<in> set rs. map_of (fixers s) (category i) = Some ReactFixer))) \<and>
         ((\<forall>i \<in> set (findMissingAuthChecks h content path
                        @ findQueryOptimizations h content path).
              category i = ''supabase'') \<longrightarrow>
          (\<exists>ss. SupabaseFixer_analyze h content path = Some ss \<and>
            (\<forall>i \<in> set ss. map_of (fixers s) (category i) = Some SupabaseFixer))) \<and>
         fixers (applyFixes env s) = fixers s \<and>
         (\<exists>s'. final (analyzeProject env projectPath s) = Some s' \<and> fixers s' = fixers s)"
proof -
  note reg = registered[of cfg w, folded assms]
  from findMissingKeys_total[of h content path] obtain ks where
    ks: "findMissingKeys h content path = Some ks" by blast
  from findMissingErrorHandling_total[of h content path] obtain es where
    es: "findMissingErrorHandling h content path = Some es" by blast
  have kcat: "\<forall>i \<in> set ks. category i = ''react''"
    using findMissingKeys_category[OF ks] by blast
  have ecat: "\<forall>i \<in> set es. category i = ''supabase''"
    using findMissingErrorHandling_category[OF es] by blast
  have 1: "\<exists>ks. findMissingKeys h content path = Some ks \<and>
      (\<forall>i \<in> set ks. category i = ''react'' \<and> map_of (fixers s) (category i) = Some ReactFixer)"
    using ks kcat reg(1) by auto
  have 2: "\<exists>es. findMissingErrorHandling h content path = Some es \<and>
      (\<forall>i \<in> set es. category i = ''supabase'' \<and>
         map_of (fixers s) (category i) = Some SupabaseFixer)"
    using es ecat reg(2) by auto
  have 3: "(\<forall>i \<in> set (findHookIssues h content path @ findStateMutations h content path).
              category i = ''react'') \<longrightarrow>
          (\<exists>rs. ReactFixer_analyze h content path = Some rs \<and>
            (\<forall>i \<in> set rs. map_of (fixers s) (category i) = Some ReactFixer))"
    using ks kcat reg(1) by (auto simp: ReactFixer_analyze_def)
  have 4: "(\<forall>i \<in> set (findMissingAuthChecks h content path
                        @ findQueryOptimizations h content path).
              category i = ''supabase'') \<longrightarrow>
          (\<exists>ss. SupabaseFixer_analyze h content path = Some ss \<and>
            (\<forall>i \<in> set ss. map_of (fixers s) (category i) = Some SupabaseFixer))"
    using es ecat reg(2) by (auto simp: SupabaseFixer_analyze_def)
  have 6: "\<exists>s'. final (analyzeProject env projectPath s) = Some s' \<and> fixers s' = fixers s"
    using analyzeProject_grows[of env projectPath s] by blast
  from 1 2 3 4 6 applyFixes_fixers[of env s] show ?thesis by blast
qed


theorem detected_categories_registered_witness:
  "fixers (new_AutoFixer (Some (example_config (9 / 10))) example_files)
     = fixers (new_AutoFixer (Some (example_config (9 / 10))) example_files)
   \<and> findHookIssues example_helpers ''items.map(item => <div>{item.name}</div>)'' ''src/List.jsx''
       @ findStateMutations example_helpers ''items.map(item => <div>{item.name}</div>)''
           ''src/List.jsx'' = []
   \<and> ReactFixer_analyze example_helpers ''items.map(item => <div>{item.name}</div>)''
       ''src/List.jsx'' = Some [missing_key]
   \<and> map_of (fixers (new_AutoFixer (Some (example_config (9 / 10))) example_files))
       (category missing_key) = Some ReactFixer"
proof -
  let ?s = "new_AutoFixer (Some (example_config (9 / 10))) example_files"
  let ?c = "''items.map(item => <div>{item.name}</div>)''"
  have none: "findHookIssues example_helpers ?c ''src/List.jsx''
       @ findStateMutations example_helpers ?c ''src/List.jsx'' = []"
    by (simp add: example_helpers_def)
  have r: "ReactFixer_analyze example_helpers ?c ''src/List.jsx'' = Some [missing_key]"
    by code_simp
  from detected_categories_registered[OF refl, where h = example_helpers and content = ?c
      and path = "''src/List.jsx''" and cfg = "Some (example_config (9 / 10))"
      and w = example_files]
  have "(\<forall>i \<in> set (findHookIssues example_helpers ?c ''src/List.jsx''
                     @ findStateMutations example_helpers ?c ''src/List.jsx'').
            category i = ''react'') \<longrightarrow>
        (\<exists>rs. ReactFixer_analyze example_helpers ?c ''src/List.jsx'' = Some rs \<and>
           (\<forall>i \<in> set rs. map_of (fixers ?s) (category i) = Some ReactFixer))"
    by blast
  with none obtain rs where
    "ReactFixer_analyze example_helpers ?c ''src/List.jsx'' = Some rs"
    "\<forall>i \<in> set rs. map_of (fixers ?s) (category i) = Some ReactFixer"
    by auto
  with r have "map_of (fixers ?s) (category missing_key) = Some ReactFixer" by simp
  with none r show ?thesis by simp
qed

subsection \<open>The issues list only grows\<close>

text \<open>
  C10: \<^verbatim>\<open>analyzeFile\<close> and \<^verbatim>\<open>analyzeProject\<close> settle for every input and
  only append to \<^verbatim>\<open>this.issues\<close>, also when they reject. After a second
  \<^verbatim>\<open>analyzeProject\<close> on the same instance the issues of the first call are a
  prefix of the list, and \<^verbatim>\<open>applyFixes\<close> then processes them again: it calls
  \<^verbatim>\<open>applyFix\<close> on those of confidence at least 0.9 and asks about the others.
\<close>

theorem issues_only_appended:
  "(\<exists>s'. final (analyzeFile env path s) = Some s' \<and> prefix (issues s) (issues s')) \<and>
   (\<exists>s1. final (analyzeProject env p1 s) = Some s1 \<and> prefix (issues s) (issues s1) \<and>
      (\<exists>s2. final (analyzeProject env p2 s1) = Some s2 \<and> prefix (issues s1) (issues s2) \<and>
         (\<forall>i \<in> set (issues s1). 9 / 10 \<le> confidence i \<longrightarrow>
            i \<in> set (drop (length (attempts (trace s2)))
                       (attempts (trace (applyFixes env s2))))) \<and>
         (\<forall>i \<in> set (issues s1). confidence i < 9 / 10 \<longrightarrow>
            i \<in> fst ` set (drop (length (answers (trace s2)))
                             (answers (trace (applyFixes env s2)))))))"
proof -
  from analyzeFile_grows[of env path s]
  have one: "\<exists>s'. final (analyzeFile env path s) = Some s' \<and> prefix (issues s) (issues s')"
    by blast
  from analyzeProject_grows[of env p1 s] obtain s1 where s1:
    "final (analyzeProject env p1 s) = Some s1" "prefix (issues s) (issues s1)" by blast
  from analyzeProject_grows[of env p2 s1] obtain s2 where s2:
    "final (analyzeProject env p2 s1) = Some s2" "prefix (issues s1) (issues s2)" by blast
  from s2(2) have sub: "set (issues s1) \<subseteq> set (issues s2)" by (rule set_mono_prefix)
  from applyFixes_trace[of s2 env] obtain bs where bs:
    "length bs = length (filter (\<lambda>i. confidence i < 9 / 10) (issues s2))"
    "answers (trace (applyFixes env s2)) =
       answers (trace s2) @ zip (filter (\<lambda>i. confidence i < 9 / 10) (issues s2)) bs"
    "attempts (trace (applyFixes env s2)) =
       attempts (trace s2) @ filter (\<lambda>i. 9 / 10 \<le> confidence i) (issues s2)
         @ map fst (filter snd (zip (filter (\<lambda>i. confidence i < 9 / 10) (issues s2)) bs))"
    by blast
  have asked: "fst ` set (zip (filter (\<lambda>i. confidence i < 9 / 10) (issues s2)) bs)
      = set (filter (\<lambda>i. confidence i < 9 / 10) (issues s2))"
    using bs(1) by (metis list.set_map map_fst_zip)
  have again: "\<forall>i \<in> set (issues s1). 9 / 10 \<le> confidence i \<longrightarrow>
      i \<in> set (drop (length (attempts (trace s2))) (attempts (trace (applyFixes env s2))))"
    using sub by (auto simp: bs(3))
  have asked_again: "\<forall>i \<in> set (issues s1). confidence i < 9 / 10 \<longrightarrow>
      i \<in> fst ` set (drop (length (answers (trace s2))) (answers (trace (applyFixes env s2))))"
  proof (intro ballI impI)
    fix i assume "i \<in> set (issues s1)" "confidence i < 9 / 10"
    with sub have "i \<in> set (filter (\<lambda>i. confidence i < 9 / 10) (issues s2))" by auto
    then have "i \<in> fst ` set (zip (filter (\<lambda>i. confidence i < 9 / 10) (issues s2)) bs)"
      unfolding asked .
    then show "i \<in> fst ` set (drop (length (answers (trace s2)))
        (answers (trace (applyFixes env s2))))"
      by (simp add: bs(2))
  qed
  from one s1 s2 again asked_again show ?thesis by blast
qed

theorem issues_only_appended_witness:
  "\<exists>s1 s2.
     final (analyzeProject (example_env False) ''./src''
       (new_AutoFixer (Some (example_config (9 / 10))) example_files)) = Some s1
     \<and> issues s1 = [missing_key]
     \<and> 9 / 10 \<le> confidence missing_key
     \<and> final (analyzeProject (example_env False) ''./src'' s1) = Some s2
     \<and> prefix [missing_key] (issues s2)
     \<and> missing_key \<in> set (drop (length (attempts (trace s2)))
                          (attempts (trace (applyFixes (example_env False) s2))))"
proof -
  let ?s = "new_AutoFixer (Some (example_config (9 / 10))) example_files"
  from issues_only_appended[of "example_env False" "''src/List.jsx''" ?s "''./src''" "''./src''"]
  obtain s1 s2 where a:
    "final (analyzeProject (example_env False) ''./src'' ?s) = Some s1"
    "final (analyzeProject (example_env False) ''./src'' s1) = Some s2"
    "prefix (issues s1) (issues s2)"
    "\<forall>i \<in> set (issues s1). 9 / 10 \<le> confidence i \<longrightarrow>
       i \<in> set (drop (length (attempts (trace s2)))
                  (attempts (trace (applyFixes (example_env False) s2))))"
    by blast
  have "map_option issues (final (analyzeProject (example_env False) ''./src'' ?s))
      = Some [missing_key]"
    by code_simp
  with a(1) have i: "issues s1 = [missing_key]" by simp
  have c: "9 / 10 \<le> confidence missing_key" by (simp add: missing_key_def)
  from a(4) i c have "missing_key \<in> set (drop (length (attempts (trace s2)))
      (attempts (trace (applyFixes (example_env False) s2))))" by simp
  with a(1,2,3) i c show ?thesis by auto
qed

end
